theory Spec2Isabelle
  imports Complex_Main "HOL-Library.Monad_Syntax"
begin

section \<open>Conventions of the embedding\<close>

text \<open>
  The engine is written in C++ over \<^verbatim>\<open>double\<close>. The embedding reads every
  \<^verbatim>\<open>double\<close> as a \<^typ>\<open>real\<close>: arithmetic is exact, and the special values
  (NaN, the infinities) do not exist. Where the source uses NaN as a marker
  (the \<^verbatim>\<open>prev_price_\<close> of the RSI, the undefined cells of a batch result) the
  embedding uses \<^typ>\<open>real option\<close> with \<open>None\<close> for the marker.
  \<^verbatim>\<open>int\<close> and \<^verbatim>\<open>int64_t\<close> are read as \<^typ>\<open>int\<close>, \<^verbatim>\<open>size_t\<close> as \<^typ>\<open>nat\<close>;
  no counter of the engine comes near its machine bound.
  An exception thrown by the source (\<^verbatim>\<open>std::out_of_range\<close> of the ring buffer) is
  the value \<open>None\<close> of an option type.
\<close>

section \<open>Bar (Bar.hpp)\<close>

record Bar =
  timestamp :: int
  bopen :: real
  high :: real
  low :: real
  close :: real
  volume :: real

section \<open>CircularBuffer (CircularBuffer.hpp)\<close>

record CircularBuffer =
  buffer :: "real list"
  capacity :: nat
  head :: nat
  count :: nat

definition CircularBuffer_new :: "nat \<Rightarrow> CircularBuffer" where
  "CircularBuffer_new cap = \<lparr>buffer = replicate cap 0, capacity = cap, head = 0, count = 0\<rparr>"

definition push :: "real \<Rightarrow> CircularBuffer \<Rightarrow> CircularBuffer" where
  "push v b =
     b\<lparr>buffer := (buffer b)[head b := v],
       head := (head b + 1) mod capacity b,
       count := (if count b < capacity b then count b + 1 else count b)\<rparr>"

text \<open>
  \<^verbatim>\<open>get\<close> throws \<^verbatim>\<open>std::out_of_range\<close> for an index that is not below the count. The
  physical index is \<^verbatim>\<open>(head_ - 1 - index + capacity_) % capacity_\<close> in \<^verbatim>\<open>size_t\<close>; the
  intermediate difference may wrap, the sum does not (index < count \<le> capacity), so
  the natural number \<open>head + capacity - 1 - index\<close> is its value.
\<close>

definition get :: "CircularBuffer \<Rightarrow> nat \<Rightarrow> real option" where
  "get b index =
     (if index \<ge> count b then None
      else Some (buffer b ! ((head b + capacity b - 1 - index) mod capacity b)))"

definition size_cb :: "CircularBuffer \<Rightarrow> nat" where
  "size_cb b = count b"

definition is_full :: "CircularBuffer \<Rightarrow> bool" where
  "is_full b = (count b = capacity b)"

section \<open>Streaming indicators (Indicators.hpp)\<close>

subsection \<open>SimpleMovingAverage\<close>

record SimpleMovingAverage =
  sma_period :: nat
  sma_sum :: real
  sma_buffer :: CircularBuffer
  sma_current_value :: real

definition SimpleMovingAverage_new :: "nat \<Rightarrow> SimpleMovingAverage" where
  "SimpleMovingAverage_new period =
     \<lparr>sma_period = period, sma_sum = 0, sma_buffer = CircularBuffer_new period,
      sma_current_value = 0\<rparr>"

definition sma_update :: "real \<Rightarrow> SimpleMovingAverage \<Rightarrow> (real \<times> SimpleMovingAverage) option" where
  "sma_update v s = do {
     sum1 \<leftarrow> (if is_full (sma_buffer s)
              then do { oldest \<leftarrow> get (sma_buffer s) (sma_period s - 1); Some (sma_sum s - oldest) }
              else Some (sma_sum s));
     let buf = push v (sma_buffer s);
     let sum2 = sum1 + v;
     let cur = sum2 / real (size_cb buf);
     Some (cur, s\<lparr>sma_sum := sum2, sma_buffer := buf, sma_current_value := cur\<rparr>)
   }"

definition sma_value :: "SimpleMovingAverage \<Rightarrow> real" where
  "sma_value s = sma_current_value s"

definition sma_is_ready :: "SimpleMovingAverage \<Rightarrow> bool" where
  "sma_is_ready s = is_full (sma_buffer s)"

subsection \<open>ExponentialMovingAverage\<close>

record ExponentialMovingAverage =
  ema_period :: nat
  ema_alpha :: real
  ema_initialized :: bool
  ema_current_value :: real

definition ExponentialMovingAverage_new :: "nat \<Rightarrow> ExponentialMovingAverage" where
  "ExponentialMovingAverage_new period =
     \<lparr>ema_period = period, ema_alpha = 2.0 / (real period + 1.0), ema_initialized = False,
      ema_current_value = 0\<rparr>"

definition ema_update :: "real \<Rightarrow> ExponentialMovingAverage \<Rightarrow> real \<times> ExponentialMovingAverage" where
  "ema_update v s =
     (let s1 = (if \<not> ema_initialized s
                then s\<lparr>ema_current_value := v, ema_initialized := True\<rparr>
                else s\<lparr>ema_current_value := ema_alpha s * v + (1.0 - ema_alpha s) * ema_current_value s\<rparr>)
      in (ema_current_value s1, s1))"

definition ema_value :: "ExponentialMovingAverage \<Rightarrow> real" where
  "ema_value s = ema_current_value s"

definition ema_is_ready :: "ExponentialMovingAverage \<Rightarrow> bool" where
  "ema_is_ready s = ema_initialized s"

subsection \<open>RSI\<close>

record RSI =
  rsi_period :: nat
  rsi_avg_gain :: real
  rsi_avg_loss :: real
  rsi_prev_price :: "real option"
  rsi_initialized_count :: nat
  rsi_current_value :: real

definition RSI_new :: "nat \<Rightarrow> RSI" where
  "RSI_new period =
     \<lparr>rsi_period = period, rsi_avg_gain = 0, rsi_avg_loss = 0, rsi_prev_price = None,
      rsi_initialized_count = 0, rsi_current_value = 0\<rparr>"

definition rsi_update :: "real \<Rightarrow> RSI \<Rightarrow> real \<times> RSI" where
  "rsi_update v s =
     (case rsi_prev_price s of
        None \<Rightarrow> (0, s\<lparr>rsi_prev_price := Some v\<rparr>)
      | Some prev \<Rightarrow>
          (let change = v - prev;
               s1 = s\<lparr>rsi_prev_price := Some v\<rparr>;
               gain = (if change > 0 then change else 0);
               loss = (if change < 0 then - change else 0);
               s2 = (if rsi_initialized_count s1 < rsi_period s1
                     then (let s' = s1\<lparr>rsi_avg_gain := rsi_avg_gain s1 + gain,
                                         rsi_avg_loss := rsi_avg_loss s1 + loss,
                                         rsi_initialized_count := rsi_initialized_count s1 + 1\<rparr>
                           in if rsi_initialized_count s' = rsi_period s'
                              then s'\<lparr>rsi_avg_gain := rsi_avg_gain s' / real (rsi_period s'),
                                      rsi_avg_loss := rsi_avg_loss s' / real (rsi_period s')\<rparr>
                              else s')
                     else s1\<lparr>rsi_avg_gain :=
                               (rsi_avg_gain s1 * (real (rsi_period s1) - 1) + gain) / real (rsi_period s1),
                             rsi_avg_loss :=
                               (rsi_avg_loss s1 * (real (rsi_period s1) - 1) + loss) / real (rsi_period s1)\<rparr>)
           in if rsi_initialized_count s2 < rsi_period s2 then (0, s2)
              else (let s3 = (if rsi_avg_loss s2 = 0 then s2\<lparr>rsi_current_value := 100.0\<rparr>
                              else (let rs = rsi_avg_gain s2 / rsi_avg_loss s2
                                    in s2\<lparr>rsi_current_value := 100.0 - 100.0 / (1.0 + rs)\<rparr>))
                    in (rsi_current_value s3, s3))))"

definition rsi_value :: "RSI \<Rightarrow> real" where
  "rsi_value s = rsi_current_value s"

definition rsi_is_ready :: "RSI \<Rightarrow> bool" where
  "rsi_is_ready s = (rsi_initialized_count s \<ge> rsi_period s)"

subsection \<open>BollingerBands\<close>

record BBResult =
  upper :: real
  middle :: real
  lower :: real
  pct_b :: real

record BollingerBands =
  bb_period :: nat
  bb_mult :: real
  bb_sma :: SimpleMovingAverage
  bb_buffer :: CircularBuffer
  bb_current :: BBResult

definition BollingerBands_new :: "nat \<Rightarrow> real \<Rightarrow> BollingerBands" where
  "BollingerBands_new period std_dev_mult =
     \<lparr>bb_period = period, bb_mult = std_dev_mult, bb_sma = SimpleMovingAverage_new period,
      bb_buffer = CircularBuffer_new period,
      bb_current = \<lparr>upper = 0, middle = 0, lower = 0, pct_b = 0\<rparr>\<rparr>"

text \<open>The loop \<^verbatim>\<open>for (i = 0; i < buffer_.size(); ++i)\<close> of \<^verbatim>\<open>BollingerBands::update\<close>.\<close>

fun sum_sq_diff_loop :: "CircularBuffer \<Rightarrow> real \<Rightarrow> nat list \<Rightarrow> real \<Rightarrow> real option" where
  "sum_sq_diff_loop b basis [] sum_sq_diff = Some sum_sq_diff"
| "sum_sq_diff_loop b basis (i # rest) sum_sq_diff =
     (case get b i of
        None \<Rightarrow> None
      | Some x \<Rightarrow> (let diff = x - basis in sum_sq_diff_loop b basis rest (sum_sq_diff + diff * diff)))"

definition bb_update :: "real \<Rightarrow> BollingerBands \<Rightarrow> (BBResult \<times> BollingerBands) option" where
  "bb_update v s = do {
     (basis, sm) \<leftarrow> sma_update v (bb_sma s);
     let buf = push v (bb_buffer s);
     variance \<leftarrow> (if is_full buf
                  then do { sum_sq_diff \<leftarrow> sum_sq_diff_loop buf basis [0..<size_cb buf] 0;
                            Some (sum_sq_diff / real (bb_period s)) }
                  else Some 0);
     let std_dev = sqrt variance;
     let cur0 = \<lparr>upper = basis + bb_mult s * std_dev, middle = basis,
                 lower = basis - bb_mult s * std_dev, pct_b = 0\<rparr>;
     let cur = (if upper cur0 \<noteq> lower cur0
                then cur0\<lparr>pct_b := (v - lower cur0) / (upper cur0 - lower cur0)\<rparr>
                else cur0\<lparr>pct_b := 0.5\<rparr>);
     Some (cur, s\<lparr>bb_sma := sm, bb_buffer := buf, bb_current := cur\<rparr>)
   }"

definition bb_is_ready :: "BollingerBands \<Rightarrow> bool" where
  "bb_is_ready s = sma_is_ready (bb_sma s)"

subsection \<open>ATR\<close>

record ATR =
  atr_period :: nat
  atr_prev_close :: "real option"
  atr_initialized_count :: nat
  atr_current_value :: real

definition ATR_new :: "nat \<Rightarrow> ATR" where
  "ATR_new period =
     \<lparr>atr_period = period, atr_prev_close = None, atr_initialized_count = 0,
      atr_current_value = 0\<rparr>"

definition atr_update :: "real \<Rightarrow> real \<Rightarrow> real \<Rightarrow> ATR \<Rightarrow> real \<times> ATR" where
  "atr_update h l c s =
     (let tr = (case atr_prev_close s of
                  None \<Rightarrow> h - l
                | Some prev_close \<Rightarrow>
                    (let tr1 = h - l; tr2 = \<bar>h - prev_close\<bar>; tr3 = \<bar>l - prev_close\<bar>
                     in max (max tr1 tr2) tr3));
          s1 = s\<lparr>atr_prev_close := Some c\<rparr>;
          s2 = (if atr_initialized_count s1 < atr_period s1
                then (let s' = s1\<lparr>atr_current_value := atr_current_value s1 + tr,
                                    atr_initialized_count := atr_initialized_count s1 + 1\<rparr>
                      in if atr_initialized_count s' = atr_period s'
                         then s'\<lparr>atr_current_value := atr_current_value s' / real (atr_period s')\<rparr>
                         else s')
                else s1\<lparr>atr_current_value :=
                          (atr_current_value s1 * (real (atr_period s1) - 1) + tr) / real (atr_period s1)\<rparr>)
      in (atr_current_value s2, s2))"

subsection \<open>RateOfChange\<close>

record RateOfChange =
  roc_period :: nat
  roc_buffer :: CircularBuffer
  roc_current_value :: real

definition RateOfChange_new :: "nat \<Rightarrow> RateOfChange" where
  "RateOfChange_new period =
     \<lparr>roc_period = period, roc_buffer = CircularBuffer_new (period + 1), roc_current_value = 0\<rparr>"

definition roc_update :: "real \<Rightarrow> RateOfChange \<Rightarrow> (real \<times> RateOfChange) option" where
  "roc_update v s =
     (let buf = push v (roc_buffer s);
          s1 = s\<lparr>roc_buffer := buf\<rparr>
      in if size_cb buf \<le> roc_period s then Some (0, s1)
         else do {
           old_price \<leftarrow> get buf (roc_period s);
           let cur = (if old_price \<noteq> 0 then (v - old_price) / old_price else 0);
           Some (cur, s1\<lparr>roc_current_value := cur\<rparr>)
         })"

definition roc_is_ready :: "RateOfChange \<Rightarrow> bool" where
  "roc_is_ready s = (size_cb (roc_buffer s) > roc_period s)"

subsection \<open>RollingStats\<close>

record RollingStats =
  rs_period :: nat
  rs_buffer :: CircularBuffer
  rs_count :: nat
  rs_sum :: real
  rs_sum_sq :: real
  rs_mean :: real
  rs_std_dev :: real
  rs_zscore :: real

definition RollingStats_new :: "nat \<Rightarrow> RollingStats" where
  "RollingStats_new period =
     \<lparr>rs_period = period, rs_buffer = CircularBuffer_new period, rs_count = 0, rs_sum = 0,
      rs_sum_sq = 0, rs_mean = 0, rs_std_dev = 0, rs_zscore = 0\<rparr>"

definition rs_update :: "real \<Rightarrow> RollingStats \<Rightarrow> (real \<times> RollingStats) option" where
  "rs_update v s = do {
     (sum1, sum_sq1) \<leftarrow>
        (if is_full (rs_buffer s)
         then do { old_val \<leftarrow> get (rs_buffer s) (rs_period s - 1);
                   Some (rs_sum s - old_val, rs_sum_sq s - old_val * old_val) }
         else Some (rs_sum s, rs_sum_sq s));
     let buf = push v (rs_buffer s);
     let sum2 = sum1 + v;
     let sum_sq2 = sum_sq1 + v * v;
     let n = real (size_cb buf);
     let mean = sum2 / n;
     let variance0 = (sum_sq2 / n) - (mean * mean);
     let variance = (if variance0 < 0 then 0 else variance0);
     let sd = sqrt variance;
     let z = (if sd > 1 / 10 ^ 9 then (v - mean) / sd else 0);
     Some (mean, s\<lparr>rs_buffer := buf, rs_sum := sum2, rs_sum_sq := sum_sq2, rs_mean := mean,
                    rs_std_dev := sd, rs_zscore := z\<rparr>)
   }"

definition rs_is_ready :: "RollingStats \<Rightarrow> bool" where
  "rs_is_ready s = is_full (rs_buffer s)"

section \<open>Strategies (Strategies.hpp)\<close>

subsection \<open>RegimeStrategy\<close>

record RegimeStrategy =
  reg_vol_short :: RollingStats
  reg_vol_long :: RollingStats
  reg_sma_trend :: SimpleMovingAverage
  reg_last_close :: real
  reg_current_regime :: string

definition RegimeStrategy_new :: RegimeStrategy where
  "RegimeStrategy_new =
     \<lparr>reg_vol_short = RollingStats_new 50, reg_vol_long = RollingStats_new 200,
      reg_sma_trend = SimpleMovingAverage_new 300, reg_last_close = 0.0,
      reg_current_regime = ''UNDEFINED''\<rparr>"

definition regime_on_bar :: "Bar \<Rightarrow> RegimeStrategy \<Rightarrow> RegimeStrategy option" where
  "regime_on_bar bar s = do {
     (vs, vl) \<leftarrow>
        (if reg_last_close s > 0
         then do { let log_ret = ln (close bar / reg_last_close s);
                   (m1, vs) \<leftarrow> rs_update log_ret (reg_vol_short s);
                   (m2, vl) \<leftarrow> rs_update log_ret (reg_vol_long s);
                   Some (vs, vl) }
         else Some (reg_vol_short s, reg_vol_long s));
     (m3, sm) \<leftarrow> sma_update (close bar) (reg_sma_trend s);
     let s1 = s\<lparr>reg_vol_short := vs, reg_vol_long := vl, reg_last_close := close bar,
                 reg_sma_trend := sm\<rparr>;
     (if \<not> rs_is_ready vl \<or> \<not> sma_is_ready sm then Some s1
      else (let low_vol = rs_std_dev vs < rs_std_dev vl;
                sma_val = sma_value sm;
                trend_strength = \<bar>close bar - sma_val\<bar> / sma_val;
                trending = trend_strength > 0.005
            in Some (s1\<lparr>reg_current_regime :=
                         (if low_vol \<and> trending then ''LV_TREND''
                          else if \<not> low_vol \<and> trending then ''HV_TREND''
                          else if low_vol \<and> \<not> trending then ''LV_RANGE''
                          else ''HV_RANGE'')\<rparr>)))
   }"

definition regime :: "RegimeStrategy \<Rightarrow> string" where
  "regime s = reg_current_regime s"

subsection \<open>MomentumStrategy\<close>

record MomentumStrategy =
  mom_roc :: RateOfChange
  mom_roc_zscore :: RollingStats
  mom_ema_12 :: ExponentialMovingAverage
  mom_ema_26 :: ExponentialMovingAverage
  mom_vol_avg :: SimpleMovingAverage
  mom_rsi :: RSI
  mom_current_signal :: int
  mom_last_zscore :: real

definition MomentumStrategy_new :: MomentumStrategy where
  "MomentumStrategy_new =
     \<lparr>mom_roc = RateOfChange_new 100, mom_roc_zscore = RollingStats_new 100,
      mom_ema_12 = ExponentialMovingAverage_new 12, mom_ema_26 = ExponentialMovingAverage_new 26,
      mom_vol_avg = SimpleMovingAverage_new 20, mom_rsi = RSI_new 14,
      mom_current_signal = 0, mom_last_zscore = 0.0\<rparr>"

definition momentum_on_bar :: "Bar \<Rightarrow> MomentumStrategy \<Rightarrow> MomentumStrategy option" where
  "momentum_on_bar bar s = do {
     (mom, roc) \<leftarrow> roc_update (close bar) (mom_roc s);
     (m1, rz) \<leftarrow> rs_update mom (mom_roc_zscore s);
     let (m2, e12) = ema_update (close bar) (mom_ema_12 s);
     let (m3, e26) = ema_update (close bar) (mom_ema_26 s);
     (m4, va) \<leftarrow> sma_update (volume bar) (mom_vol_avg s);
     let (m5, rsi) = rsi_update (close bar) (mom_rsi s);
     let s1 = s\<lparr>mom_roc := roc, mom_roc_zscore := rz, mom_ema_12 := e12, mom_ema_26 := e26,
                 mom_vol_avg := va, mom_rsi := rsi\<rparr>;
     (if \<not> rs_is_ready rz \<or> \<not> ema_is_ready e26 \<or> \<not> sma_is_ready va \<or> \<not> rsi_is_ready rsi
      then Some s1
      else (let z = rs_zscore rz;
                rsi_val = rsi_value rsi;
                trend_up = ema_value e12 > ema_value e26;
                trend_down = ema_value e12 < ema_value e26;
                high_volume = volume bar > sma_value va;
                rsi_not_extreme_high = rsi_val < 75.0;
                rsi_not_extreme_low = rsi_val > 25.0;
                momentum_accel = z > mom_last_zscore s1;
                momentum_decel = z < mom_last_zscore s1;
                s2 = s1\<lparr>mom_last_zscore := z\<rparr>;
                long_entry = (z > 1.5 \<and> trend_up \<and> high_volume \<and> rsi_not_extreme_high
                              \<and> momentum_accel);
                short_entry = (z < - 1.5 \<and> trend_down \<and> high_volume \<and> rsi_not_extreme_low
                               \<and> momentum_decel);
                exit_zscore = 0.3;
                momentum_weak = \<bar>z\<bar> < exit_zscore
            in Some (if long_entry then s2\<lparr>mom_current_signal := 1\<rparr>
                     else if short_entry then s2\<lparr>mom_current_signal := - 1\<rparr>
                     else if momentum_weak then s2\<lparr>mom_current_signal := 0\<rparr>
                     else s2)))
   }"

definition momentum_signal :: "MomentumStrategy \<Rightarrow> int" where
  "momentum_signal s = mom_current_signal s"

subsection \<open>MeanReversionStrategy\<close>

record MeanReversionStrategy =
  mr_bb :: BollingerBands
  mr_rsi :: RSI
  mr_vol_20 :: RollingStats
  mr_vol_60 :: RollingStats
  mr_last_close :: real
  mr_current_signal :: int

definition MeanReversionStrategy_new :: MeanReversionStrategy where
  "MeanReversionStrategy_new =
     \<lparr>mr_bb = BollingerBands_new 100 2.0, mr_rsi = RSI_new 20, mr_vol_20 = RollingStats_new 20,
      mr_vol_60 = RollingStats_new 60, mr_last_close = 0.0, mr_current_signal = 0\<rparr>"

definition mean_reversion_on_bar :: "Bar \<Rightarrow> MeanReversionStrategy \<Rightarrow> MeanReversionStrategy option" where
  "mean_reversion_on_bar bar s = do {
     (bb_res, bb) \<leftarrow> bb_update (close bar) (mr_bb s);
     let (rsi_val, rsi) = rsi_update (close bar) (mr_rsi s);
     (v20, v60) \<leftarrow>
        (if mr_last_close s > 0
         then do { let log_ret = ln (close bar / mr_last_close s);
                   (m1, v20) \<leftarrow> rs_update log_ret (mr_vol_20 s);
                   (m2, v60) \<leftarrow> rs_update log_ret (mr_vol_60 s);
                   Some (v20, v60) }
         else Some (mr_vol_20 s, mr_vol_60 s));
     let s1 = s\<lparr>mr_bb := bb, mr_rsi := rsi, mr_vol_20 := v20, mr_vol_60 := v60,
                 mr_last_close := close bar\<rparr>;
     (if \<not> bb_is_ready bb \<or> \<not> rsi_is_ready rsi \<or> \<not> rs_is_ready v60 then Some s1
      else (let std_dev = (upper bb_res - middle bb_res) / 2.0;
                bb_pos = (if std_dev > 0 then (close bar - middle bb_res) / (2.0 * std_dev) else 0.0);
                low_vol_regime = rs_std_dev v20 < rs_std_dev v60;
                long_entry = (bb_pos < - 0.8 \<and> rsi_val < 30.0 \<and> low_vol_regime);
                short_entry = (bb_pos > 0.8 \<and> rsi_val > 70.0 \<and> low_vol_regime);
                exit_long = bb_pos > 0.1;
                exit_short = bb_pos < - 0.1
            in Some (if long_entry then s1\<lparr>mr_current_signal := 1\<rparr>
                     else if short_entry then s1\<lparr>mr_current_signal := - 1\<rparr>
                     else if mr_current_signal s1 = 1 \<and> exit_long then s1\<lparr>mr_current_signal := 0\<rparr>
                     else if mr_current_signal s1 = - 1 \<and> exit_short then s1\<lparr>mr_current_signal := 0\<rparr>
                     else s1)))
   }"

definition mean_reversion_signal :: "MeanReversionStrategy \<Rightarrow> int" where
  "mean_reversion_signal s = mr_current_signal s"

section \<open>ExecutionEngine (ExecutionEngine.hpp)\<close>

record Trade =
  entry_time :: int
  exit_time :: int
  entry_price :: real
  exit_price :: real
  side :: int
  pnl :: real

record ExecutionEngine =
  capital :: real
  cash :: real
  position :: real
  position_side :: int
  last_entry_time :: int
  last_entry_price :: real
  pending_order_side :: int
  pending_order_qty :: real
  trades :: "Trade list"

definition ExecutionEngine_new :: "real \<Rightarrow> ExecutionEngine" where
  "ExecutionEngine_new initial_capital =
     \<lparr>capital = initial_capital, cash = initial_capital, position = 0, position_side = 0,
      last_entry_time = 0, last_entry_price = 0,
      pending_order_side = 0, pending_order_qty = 0, trades = []\<rparr>"

definition submit_order :: "int \<Rightarrow> real \<Rightarrow> ExecutionEngine \<Rightarrow> ExecutionEngine" where
  "submit_order sd quantity e = e\<lparr>pending_order_side := sd, pending_order_qty := quantity\<rparr>"

definition close_position :: "ExecutionEngine \<Rightarrow> ExecutionEngine" where
  "close_position e =
     (if position e \<noteq> 0 then submit_order (- position_side e) \<bar>position e\<bar> e else e)"

text \<open>
  \<^verbatim>\<open>execute_trade\<close> runs four blocks in sequence, each on the state the one before left:
  the capture of the entry details, the buy or sell, the record of a closed trade, and
  the update of the position side. The fee is the constant 0.0 in both places.
\<close>

definition capture_entry :: "int \<Rightarrow> int \<Rightarrow> real \<Rightarrow> ExecutionEngine \<Rightarrow> ExecutionEngine" where
  "capture_entry time sd price e =
     (if position e = 0 \<and> sd \<noteq> 0
      then e\<lparr>last_entry_time := time, last_entry_price := price\<rparr> else e)"

definition buy_or_sell :: "int \<Rightarrow> real \<Rightarrow> real \<Rightarrow> ExecutionEngine \<Rightarrow> ExecutionEngine" where
  "buy_or_sell sd qty price e =
     (let cost = qty * price;
          fee = 0.0
      in if sd = 1
         then e\<lparr>cash := cash e - (cost + fee), position := position e + qty\<rparr>
         else e\<lparr>cash := cash e + (cost - fee), position := position e - qty\<rparr>)"

definition record_trade :: "int \<Rightarrow> real \<Rightarrow> real \<Rightarrow> ExecutionEngine \<Rightarrow> ExecutionEngine" where
  "record_trade time qty price e =
     (if \<bar>position e\<bar> < 1 / 10 ^ 9 \<and> position_side e \<noteq> 0
      then (let total_fee = 0.0;
                p = (if position_side e = 1
                     then (price - last_entry_price e) * qty
                     else (last_entry_price e - price) * qty)
            in e\<lparr>trades := trades e @
                 [\<lparr>entry_time = last_entry_time e, exit_time = time,
                   entry_price = last_entry_price e, exit_price = price,
                   side = position_side e, pnl = p - total_fee\<rparr>]\<rparr>)
      else e)"

definition update_state :: "ExecutionEngine \<Rightarrow> ExecutionEngine" where
  "update_state e =
     e\<lparr>position_side :=
         (if \<bar>position e\<bar> > 1 / 10 ^ 9 then (if position e > 0 then 1 else - 1) else 0)\<rparr>"

definition execute_trade :: "int \<Rightarrow> int \<Rightarrow> real \<Rightarrow> real \<Rightarrow> ExecutionEngine \<Rightarrow> ExecutionEngine" where
  "execute_trade time sd qty price e =
     update_state (record_trade time qty price (buy_or_sell sd qty price (capture_entry time sd price e)))"

definition on_bar_open :: "Bar \<Rightarrow> ExecutionEngine \<Rightarrow> ExecutionEngine" where
  "on_bar_open bar e =
     (if pending_order_side e \<noteq> 0
      then (execute_trade (timestamp bar) (pending_order_side e) (pending_order_qty e) (bopen bar) e)
             \<lparr>pending_order_side := 0, pending_order_qty := 0\<rparr>
      else e)"

definition get_equity :: "ExecutionEngine \<Rightarrow> real \<Rightarrow> real" where
  "get_equity e current_price = cash e + position e * current_price"

definition get_position :: "ExecutionEngine \<Rightarrow> real" where
  "get_position e = position e"

definition is_invested :: "ExecutionEngine \<Rightarrow> bool" where
  "is_invested e = (position e \<noteq> 0)"

section \<open>RiskManager (RiskManager.hpp)\<close>

record RiskConfig =
  atr_stop_multiplier :: real
  max_drawdown_limit :: real
  max_trades_per_day :: int
  cooldown_bars :: int

record RiskManager =
  config :: RiskConfig
  rm_side :: int
  rm_entry_price :: real
  stop_loss :: real
  highest_price :: real
  lowest_price :: real
  atr_at_entry :: real
  trades_today :: int
  last_trade_day :: int
  cooldown_counter :: int

definition RiskManager_new :: "RiskConfig \<Rightarrow> RiskManager" where
  "RiskManager_new cfg =
     \<lparr>config = cfg, rm_side = 0, rm_entry_price = 0, stop_loss = 0, highest_price = 0,
      lowest_price = 0, atr_at_entry = 0, trades_today = 0, last_trade_day = 0,
      cooldown_counter = 0\<rparr>"

text \<open>
  \<^verbatim>\<open>is_new_day\<close> compares the year, month and day of month that \<^verbatim>\<open>std::localtime\<close>
  gives for the two timestamps. The C library's calendar is a parameter \<open>cal\<close> of the
  embedding: \<open>cal t\<close> is the calendar day (year, month, day of month) of timestamp \<open>t\<close>.
\<close>

definition is_new_day :: "(int \<Rightarrow> 'd) \<Rightarrow> int \<Rightarrow> RiskManager \<Rightarrow> bool" where
  "is_new_day cal current_time r = (cal current_time \<noteq> cal (last_trade_day r))"

definition can_enter :: "(int \<Rightarrow> 'd) \<Rightarrow> int \<Rightarrow> RiskManager \<Rightarrow> bool \<times> RiskManager" where
  "can_enter cal current_time r =
     (let r1 = (if is_new_day cal current_time r
                then r\<lparr>trades_today := 0, last_trade_day := current_time\<rparr> else r)
      in if trades_today r1 \<ge> max_trades_per_day (config r1) then (False, r1)
         else if cooldown_counter r1 > 0 then (False, r1)
         else (True, r1))"

definition on_entry :: "real \<Rightarrow> real \<Rightarrow> int \<Rightarrow> RiskManager \<Rightarrow> RiskManager" where
  "on_entry price atr_value sd r =
     (let r1 = r\<lparr>rm_entry_price := price, highest_price := price, lowest_price := price,
                 atr_at_entry := atr_value, rm_side := sd\<rparr>;
          r2 = (if sd = 1
                then r1\<lparr>stop_loss := price - atr_at_entry r1 * atr_stop_multiplier (config r1)\<rparr>
                else r1\<lparr>stop_loss := price + atr_at_entry r1 * atr_stop_multiplier (config r1)\<rparr>)
      in r2\<lparr>trades_today := trades_today r2 + 1\<rparr>)"

definition check_exit :: "Bar \<Rightarrow> RiskManager \<Rightarrow> bool \<times> RiskManager" where
  "check_exit bar r =
     (if rm_side r = 0 then (False, r)
      else if rm_side r = 1 \<and> low bar < stop_loss r then (True, r)
      else if rm_side r = - 1 \<and> high bar > stop_loss r then (True, r)
      else if rm_side r = 1 then
        (if high bar > highest_price r
         then (let r1 = r\<lparr>highest_price := high bar\<rparr>;
                   new_stop = highest_price r1 - atr_at_entry r1 * atr_stop_multiplier (config r1)
               in (False, r1\<lparr>stop_loss := max (stop_loss r1) new_stop\<rparr>))
         else (False, r))
      else
        (if low bar < lowest_price r
         then (let r1 = r\<lparr>lowest_price := low bar\<rparr>;
                   new_stop = lowest_price r1 + atr_at_entry r1 * atr_stop_multiplier (config r1)
               in (False, r1\<lparr>stop_loss := min (stop_loss r1) new_stop\<rparr>))
         else (False, r)))"

definition on_exit :: "bool \<Rightarrow> RiskManager \<Rightarrow> RiskManager" where
  "on_exit is_win r =
     (let r1 = r\<lparr>rm_side := 0\<rparr>
      in if \<not> is_win then r1\<lparr>cooldown_counter := cooldown_bars (config r1)\<rparr> else r1)"

definition update_cooldown :: "RiskManager \<Rightarrow> RiskManager" where
  "update_cooldown r =
     (if cooldown_counter r > 0 then r\<lparr>cooldown_counter := cooldown_counter r - 1\<rparr> else r)"

text \<open>Successive \<^verbatim>\<open>check_exit\<close> calls, one per bar, with the state threaded through.\<close>

fun check_exits :: "Bar list \<Rightarrow> RiskManager \<Rightarrow> RiskManager" where
  "check_exits [] r = r"
| "check_exits (bar # bars) r = check_exits bars (snd (check_exit bar r))"

section \<open>The trading part of the loop body of Engine::run (Engine.hpp)\<close>

text \<open>
  The body of the main event loop, for one bar, in the order of the source. The strategy
  layer reads only the bar and its own state, and the trading components read from it
  only the dispatched \<open>signal\<close>; so the trading part of the body is a function of the
  bar and that signal.

  Step 2: the intra-bar risk check.
\<close>

definition risk_check :: "Bar \<Rightarrow> ExecutionEngine \<times> RiskManager \<Rightarrow> ExecutionEngine \<times> RiskManager" where
  "risk_check bar s =
     (case s of (e, r) \<Rightarrow>
        if is_invested e
        then (case check_exit bar r of (hit, r1) \<Rightarrow>
                if hit then (close_position e, on_exit False r1) else (e, r1))
        else (e, r))"

text \<open>Step 5: the execution logic, given the signal that step 4 dispatched.\<close>

definition execution_logic ::
  "(int \<Rightarrow> 'd) \<Rightarrow> Bar \<Rightarrow> int \<Rightarrow> ExecutionEngine \<times> RiskManager \<Rightarrow> ExecutionEngine \<times> RiskManager" where
  "execution_logic cal bar signal s =
     (case s of (e, r) \<Rightarrow>
        if signal \<noteq> 0 \<and> \<not> is_invested e
        then (case can_enter cal (timestamp bar) r of (ok, r1) \<Rightarrow>
                if ok
                then (let alloc_amt = 100000.0 * 0.20;
                          qty = alloc_amt / close bar
                      in (submit_order signal qty e,
                          on_entry (close bar) (close bar * 0.01) signal r1))
                else (e, r1))
        else if signal = 0 \<and> is_invested e
        then (close_position e, on_exit True r)
        else (e, r))"

text \<open>Steps 1, 2, 5 and the cooldown update, for one bar.\<close>

definition trade_step ::
  "(int \<Rightarrow> 'd) \<Rightarrow> Bar \<Rightarrow> int \<Rightarrow> ExecutionEngine \<times> RiskManager \<Rightarrow> ExecutionEngine \<times> RiskManager" where
  "trade_step cal bar signal s =
     (case execution_logic cal bar signal (risk_check bar (on_bar_open bar (fst s), snd s)) of
        (e, r) \<Rightarrow> (e, update_cooldown r))"

text \<open>The loop over the bars, each with the signal dispatched on it.\<close>

fun trade_run ::
  "(int \<Rightarrow> 'd) \<Rightarrow> (Bar \<times> int) list \<Rightarrow> ExecutionEngine \<times> RiskManager \<Rightarrow> ExecutionEngine \<times> RiskManager" where
  "trade_run cal [] s = s"
| "trade_run cal ((bar, signal) # rest) s = trade_run cal rest (trade_step cal bar signal s)"

text \<open>The components as the constructor of \<^verbatim>\<open>Engine\<close> builds them.\<close>

definition engine_config :: RiskConfig where
  "engine_config =
     \<lparr>atr_stop_multiplier = 2.0, max_drawdown_limit = 0.10, max_trades_per_day = 20,
      cooldown_bars = 5\<rparr>"

definition trading_init :: "ExecutionEngine \<times> RiskManager" where
  "trading_init = (ExecutionEngine_new 100000.0, RiskManager_new engine_config)"

section \<open>ExecutionEngine and the loop body over the special values of a double\<close>
































section \<open>Engine (Engine.hpp)\<close>

record Engine =
  risk_manager :: RiskManager
  execution_engine :: ExecutionEngine
  regime_strategy :: RegimeStrategy
  momentum_strategy :: MomentumStrategy
  mean_reversion_strategy :: MeanReversionStrategy

text \<open>Step 4 of the loop body: the signal is dispatched on the regime string.\<close>

definition dispatch :: "string \<Rightarrow> MomentumStrategy \<Rightarrow> MeanReversionStrategy \<Rightarrow> int" where
  "dispatch rg mo mr =
     (if rg = ''LV_TREND'' \<or> rg = ''HV_TREND'' then momentum_signal mo
      else if rg = ''LV_RANGE'' then mean_reversion_signal mr
      else 0)"

text \<open>The whole loop body, in the order of the source.\<close>

definition engine_step :: "(int \<Rightarrow> 'd) \<Rightarrow> Bar \<Rightarrow> Engine \<Rightarrow> Engine option" where
  "engine_step cal bar st = do {
     let e1 = on_bar_open bar (execution_engine st);
     let s2 = risk_check bar (e1, risk_manager st);
     rg \<leftarrow> regime_on_bar bar (regime_strategy st);
     mo \<leftarrow> momentum_on_bar bar (momentum_strategy st);
     mr \<leftarrow> mean_reversion_on_bar bar (mean_reversion_strategy st);
     let signal = dispatch (regime rg) mo mr;
     let (e3, r3) = execution_logic cal bar signal s2;
     Some \<lparr>risk_manager = update_cooldown r3, execution_engine = e3, regime_strategy = rg,
           momentum_strategy = mo, mean_reversion_strategy = mr\<rparr>
   }"

fun run_loop :: "(int \<Rightarrow> 'd) \<Rightarrow> Bar list \<Rightarrow> Engine \<Rightarrow> Engine option" where
  "run_loop cal [] st = Some st"
| "run_loop cal (bar # bars) st = (case engine_step cal bar st of None \<Rightarrow> None | Some st' \<Rightarrow> run_loop cal bars st')"

text \<open>\<^verbatim>\<open>Engine::run\<close> resets the three strategies, then loops over the bars.\<close>

definition run :: "(int \<Rightarrow> 'd) \<Rightarrow> Bar list \<Rightarrow> Engine \<Rightarrow> Engine option" where
  "run cal bars eng =
     run_loop cal bars
       (eng\<lparr>regime_strategy := RegimeStrategy_new, momentum_strategy := MomentumStrategy_new,
            mean_reversion_strategy := MeanReversionStrategy_new\<rparr>)"

definition Engine_new :: Engine where
  "Engine_new =
     \<lparr>risk_manager = RiskManager_new engine_config,
      execution_engine = ExecutionEngine_new 100000.0,
      regime_strategy = RegimeStrategy_new, momentum_strategy = MomentumStrategy_new,
      mean_reversion_strategy = MeanReversionStrategy_new\<rparr>"

text \<open>The state an order cannot touch: everything but the pending order itself.\<close>

definition observed :: "ExecutionEngine \<Rightarrow> ExecutionEngine" where
  "observed e = e\<lparr>pending_order_side := 0, pending_order_qty := 0\<rparr>"

section \<open>Concrete inputs\<close>

text \<open>The constructor \<^verbatim>\<open>Bar(ts, o, h, l, c, v)\<close>.\<close>

definition Bar_new :: "int \<Rightarrow> real \<Rightarrow> real \<Rightarrow> real \<Rightarrow> real \<Rightarrow> real \<Rightarrow> Bar" where
  "Bar_new ts op h l c v = \<lparr>timestamp = ts, bopen = op, high = h, low = l, close = c, volume = v\<rparr>"

text \<open>A risk manager after a long, and after a short, entry at 100 with ATR 1 (stops 98 and 102).\<close>

definition risk_long :: RiskManager where
  "risk_long = on_entry 100 1 1 (RiskManager_new engine_config)"

definition risk_short :: RiskManager where
  "risk_short = on_entry 100 1 (- 1) (RiskManager_new engine_config)"

text \<open>The calendar day of a timestamp in UTC, as a day number.\<close>

definition utc_day :: "int \<Rightarrow> int" where
  "utc_day t = t div 86400"

section \<open>Entries of a run\<close>

text \<open>
  The guard of the branch of step 5 that submits the entry order and calls
  \<^verbatim>\<open>on_entry\<close>: evaluated on the state that steps 1 and 2 of this bar left.
\<close>

definition enters :: "(int \<Rightarrow> 'd) \<Rightarrow> Bar \<Rightarrow> int \<Rightarrow> ExecutionEngine \<times> RiskManager \<Rightarrow> bool" where
  "enters cal bar signal s =
     (case risk_check bar (on_bar_open bar (fst s), snd s) of
        (e, r) \<Rightarrow> signal \<noteq> 0 \<and> \<not> is_invested e \<and> fst (can_enter cal (timestamp bar) r))"

text \<open>The timestamps of the bars of a run on which that branch is taken, in order.\<close>

fun entry_times ::
  "(int \<Rightarrow> 'd) \<Rightarrow> (Bar \<times> int) list \<Rightarrow> ExecutionEngine \<times> RiskManager \<Rightarrow> int list" where
  "entry_times cal [] s = []"
| "entry_times cal ((bar, signal) # rest) s =
     (if enters cal bar signal s then [timestamp bar] else [])
       @ entry_times cal rest (trade_step cal bar signal s)"

text \<open>The stop is hit on this bar: step 2 calls \<^verbatim>\<open>on_exit(false)\<close>.\<close>

definition stop_hit :: "Bar \<Rightarrow> ExecutionEngine \<times> RiskManager \<Rightarrow> bool" where
  "stop_hit bar s = (is_invested (on_bar_open bar (fst s)) \<and> fst (check_exit bar (snd s)))"

section \<open>Invariant of the execution state\<close>

text \<open>
  What the loop of \<^verbatim>\<open>Engine::run\<close> maintains of the execution engine: the cash is the capital
  plus the realised pnl minus the cost of the open position; the side is the sign of the
  position beyond the threshold; and a pending order on an open position is the order
  that \<^verbatim>\<open>close_position\<close> submits.
\<close>

definition exec_inv :: "ExecutionEngine \<Rightarrow> bool" where
  "exec_inv e =
     (cash e = capital e + sum_list (map pnl (trades e)) - position e * last_entry_price e \<and>
      position_side e = (if \<bar>position e\<bar> > 1 / 10 ^ 9 then (if position e > 0 then 1 else - 1) else 0) \<and>
      (pending_order_side e \<noteq> 0 \<and> position e \<noteq> 0 \<longrightarrow>
         pending_order_side e = - position_side e \<and> pending_order_qty e = \<bar>position e\<bar>))"

text \<open>The outer condition of step 5: \<^verbatim>\<open>can_enter\<close> is called on this bar.\<close>

definition gate :: "Bar \<Rightarrow> int \<Rightarrow> ExecutionEngine \<times> RiskManager \<Rightarrow> bool" where
  "gate bar signal s =
     (signal \<noteq> 0 \<and> \<not> is_invested (fst (risk_check bar (on_bar_open bar (fst s), snd s))))"

section \<open>Abstraction and well-formedness of the indicator states\<close>

text \<open>
  The window a ring buffer holds, newest first; the states the constructors and the updates
  can produce; and the quantities the proofs below follow through a run.
\<close>

definition cb_wf :: "CircularBuffer \<Rightarrow> bool" where
  "cb_wf b = (0 < capacity b \<and> length (buffer b) = capacity b \<and> head b < capacity b
              \<and> count b \<le> capacity b)"

definition contents :: "CircularBuffer \<Rightarrow> real list" where
  "contents b =
     map (\<lambda>i. buffer b ! ((head b + capacity b - 1 - i) mod capacity b)) [0..<count b]"

definition sma_wf :: "SimpleMovingAverage \<Rightarrow> bool" where
  "sma_wf s = (cb_wf (sma_buffer s) \<and> capacity (sma_buffer s) = sma_period s
               \<and> sma_sum s = sum_list (contents (sma_buffer s)))"

definition rs_wf :: "RollingStats \<Rightarrow> bool" where
  "rs_wf s = (cb_wf (rs_buffer s) \<and> capacity (rs_buffer s) = rs_period s
              \<and> rs_sum s = sum_list (contents (rs_buffer s))
              \<and> rs_sum_sq s = sum_list (map (\<lambda>x. x * x) (contents (rs_buffer s))))"

definition roc_wf :: "RateOfChange \<Rightarrow> bool" where
  "roc_wf s = (cb_wf (roc_buffer s) \<and> capacity (roc_buffer s) = roc_period s + 1)"

definition bb_wf :: "BollingerBands \<Rightarrow> bool" where
  "bb_wf s = (sma_wf (bb_sma s) \<and> cb_wf (bb_buffer s) \<and> capacity (bb_buffer s) = bb_period s)"

definition window_std :: "real list \<Rightarrow> real" where
  "window_std cs =
     (let n = real (length cs);
          mean = sum_list cs / n;
          variance0 = sum_list (map (\<lambda>x. x * x) cs) / n - mean * mean
      in sqrt (if variance0 < 0 then 0 else variance0))"

definition regime_wf :: "RegimeStrategy \<Rightarrow> bool" where
  "regime_wf s = (rs_wf (reg_vol_short s) \<and> rs_wf (reg_vol_long s) \<and> sma_wf (reg_sma_trend s))"

definition momentum_wf :: "MomentumStrategy \<Rightarrow> bool" where
  "momentum_wf s = (roc_wf (mom_roc s) \<and> rs_wf (mom_roc_zscore s) \<and> sma_wf (mom_vol_avg s))"

definition mean_reversion_wf :: "MeanReversionStrategy \<Rightarrow> bool" where
  "mean_reversion_wf s = (bb_wf (mr_bb s) \<and> rs_wf (mr_vol_20 s) \<and> rs_wf (mr_vol_60 s))"

definition engine_wf :: "Engine \<Rightarrow> bool" where
  "engine_wf st = (regime_wf (regime_strategy st) \<and> momentum_wf (momentum_strategy st)
                   \<and> mean_reversion_wf (mean_reversion_strategy st))"

text \<open>The classification of \<^verbatim>\<open>RegimeStrategy::on_bar\<close>, once the indicators are ready.\<close>

definition classify :: "real \<Rightarrow> real \<Rightarrow> real \<Rightarrow> real \<Rightarrow> string" where
  "classify sd_short sd_long c sma_val =
     (let low_vol = sd_short < sd_long;
          trend_strength = \<bar>c - sma_val\<bar> / sma_val;
          trending = trend_strength > 0.005
      in if low_vol \<and> trending then ''LV_TREND''
         else if \<not> low_vol \<and> trending then ''HV_TREND''
         else if low_vol \<and> \<not> trending then ''LV_RANGE''
         else ''HV_RANGE'')"

fun log_returns_fed :: "real \<Rightarrow> Bar list \<Rightarrow> nat" where
  "log_returns_fed prev [] = 0"
| "log_returns_fed prev (bar # bars) = (if prev > 0 then 1 else 0) + log_returns_fed (close bar) bars"

definition warm_inv :: "Engine \<Rightarrow> nat \<Rightarrow> nat \<Rightarrow> bool" where
  "warm_inv st a k =
     (engine_wf st \<and>
      rs_period (reg_vol_long (regime_strategy st)) = 200 \<and>
      sma_period (reg_sma_trend (regime_strategy st)) = 300 \<and>
      count (sma_buffer (reg_sma_trend (regime_strategy st))) = min 300 a \<and>
      count (rs_buffer (reg_vol_long (regime_strategy st))) = min 200 k \<and>
      (a < 300 \<or> k < 200 \<longrightarrow>
         regime (regime_strategy st) = ''UNDEFINED'' \<and>
         execution_engine st = ExecutionEngine_new 100000))"

section \<open>Scenarios\<close>

text \<open>A long entry at bar 1, filled at 101 on bar 2, closed by the signal, filled at 103 on bar 3.\<close>

definition round_trip :: "(Bar \<times> int) list" where
  "round_trip =
     [(Bar_new 60 100 100 100 100 1000, 1),
      (Bar_new 120 101 102 100 101.5 1000, 0),
      (Bar_new 180 103 103 103 103 1000, 0)]"

text \<open>
  A long entry filled at 100, closed by the signal and filled at 99 (a loss of 200), with an
  entry signal on the bar of that fill.
\<close>

definition losing_reentry :: "(Bar \<times> int) list" where
  "losing_reentry =
     [(Bar_new 60 100 100 100 100 1000, 1),
      (Bar_new 120 100 100 99.5 99.5 1000, 0),
      (Bar_new 180 99 99 99 99 1000, 1)]"

text \<open>
  Flat bars at 100, one minute apart, the signal alternating between 0 and 1: each pair of
  bars closes the open position and enters again.
\<close>

fun flat_cycles :: "nat \<Rightarrow> int \<Rightarrow> (Bar \<times> int) list" where
  "flat_cycles 0 t = []"
| "flat_cycles (Suc n) t =
     (Bar_new t 100 100 100 100 1000, 0) # (Bar_new (t + 60) 100 100 100 100 1000, 1)
       # flat_cycles n (t + 120)"

text \<open>An entry on the last minute of day 0 (UTC), then 21 such pairs on day 1.\<close>

definition cap_bars :: "(Bar \<times> int) list" where
  "cap_bars = (Bar_new 86340 100 100 100 100 1000, 1) # flat_cycles 21 86400"

text \<open>A long position held from 100 (stop 98), and a bar whose low is 97.5.\<close>

definition held_long :: "ExecutionEngine \<times> RiskManager" where
  "held_long =
     trade_run utc_day
       [(Bar_new 60 100 100 100 100 1000, 1), (Bar_new 120 100 100 100 100 1000, 1)] trading_init"

definition stop_bar :: Bar where
  "stop_bar = Bar_new 180 100 100 97.5 98 1000"

definition after_stop :: "(Bar \<times> int) list" where
  "after_stop =
     [(Bar_new 240 98 98 98 98 1000, 1), (Bar_new 300 98 98 98 98 1000, 1),
      (Bar_new 360 98 98 98 98 1000, 1), (Bar_new 420 98 98 98 98 1000, 1)]"



text \<open>Scenario S1: bars at the constant price 100.0, and what the engine state is after n of them.\<close>

definition const_bar :: "Bar \<Rightarrow> bool" where
  "const_bar b = (bopen b = 100.0 \<and> high b = 100.0 \<and> low b = 100.0 \<and> close b = 100.0
                  \<and> volume b = 1000)"

definition const_inv :: "Engine \<Rightarrow> nat \<Rightarrow> bool" where
  "const_inv st n =
     (engine_wf st \<and>
      rs_period (reg_vol_short (regime_strategy st)) = 50 \<and>
      rs_period (reg_vol_long (regime_strategy st)) = 200 \<and>
      sma_period (reg_sma_trend (regime_strategy st)) = 300 \<and>
      contents (rs_buffer (reg_vol_short (regime_strategy st))) = replicate (min 50 (n - 1)) 0 \<and>
      contents (rs_buffer (reg_vol_long (regime_strategy st))) = replicate (min 200 (n - 1)) 0 \<and>
      contents (sma_buffer (reg_sma_trend (regime_strategy st))) = replicate (min 300 n) 100 \<and>
      rs_std_dev (reg_vol_short (regime_strategy st)) = 0 \<and>
      rs_std_dev (reg_vol_long (regime_strategy st)) = 0 \<and>
      reg_last_close (regime_strategy st) = (if n = 0 then 0 else 100) \<and>
      reg_current_regime (regime_strategy st) = (if n < 300 then ''UNDEFINED'' else ''HV_RANGE'') \<and>
      execution_engine st = ExecutionEngine_new 100000)"

definition s1_bars :: "Bar list" where
  "s1_bars = map (\<lambda>i. Bar_new (60 * int i) 100.0 100.0 100.0 100.0 1000) [1..<501]"

section \<open>Double arithmetic\<close>

text \<open>
  An arithmetic operation of IEEE 754 on doubles returns the exact result rounded to the
  nearest double, a tie going to the double whose last bit is 0. \<open>round64\<close> is that
  rounding, on the reals: 53 bits of precision for a normal number, the spacing
  \<open>2 powr - 1074\<close> for a magnitude below \<open>2 powr - 1022\<close> (the subnormal numbers). A
  result of magnitude \<open>2 ^ 1024\<close> or more, which overflows to an infinity, is not modelled.
\<close>

definition round_half_even :: "real \<Rightarrow> int" where
  "round_half_even x =
     (let f = \<lfloor>x\<rfloor>
      in if x - of_int f < 1 / 2 then f
         else if 1 / 2 < x - of_int f then f + 1
         else if even f then f else f + 1)"

definition round64 :: "real \<Rightarrow> real" where
  "round64 x =
     (if x = 0 then 0
      else (let e = max \<lfloor>log 2 \<bar>x\<bar>\<rfloor> (- 1022);
                ulp = 2 powr of_int (e - 52)
            in of_int (round_half_even (x / ulp)) * ulp))"

definition min_subnormal :: real where
  "min_subnormal = 2 powr (- 1074)"

section \<open>The indicators in double arithmetic\<close>

text \<open>
  The classes of \<^verbatim>\<open>Indicators.hpp\<close> that have a batch counterpart, and the functions of
  \<^verbatim>\<open>features.cpp\<close>, with every arithmetic operation on doubles followed by a rounding
  \<open>rnd\<close>, a parameter: with \<open>round64\<close> for \<open>rnd\<close> the operations are those of the machine,
  with the identity they are exact and the streaming definitions are those of the sections
  above. Comparisons, negation, \<^verbatim>\<open>std::abs\<close>, \<^verbatim>\<open>std::max\<close> and the conversion of a period
  or of a size to \<^verbatim>\<open>double\<close> are exact.

  The batch functions return a vector with NaN in the cells they do not compute; here a
  list of \<^typ>\<open>real option\<close> with \<open>None\<close> in those cells, and in a cell whose value is the
  square root of a negative number. A \<^verbatim>\<open>for\<close> loop over an index range is a \<open>fold\<close> over
  that range, its body a function of the index and the loop's variables. The functions
  named \<open>_feed\<close> call \<^verbatim>\<open>update\<close> once per element and keep the last output.
\<close>


subsection \<open>Streaming classes (Indicators.hpp)\<close>

definition sma_update_fp ::
  "(real \<Rightarrow> real) \<Rightarrow> real \<Rightarrow> SimpleMovingAverage \<Rightarrow> (real \<times> SimpleMovingAverage) option" where
  "sma_update_fp rnd v s = do {
     sum1 \<leftarrow> (if is_full (sma_buffer s)
              then do { oldest \<leftarrow> get (sma_buffer s) (sma_period s - 1);
                        Some (rnd (sma_sum s - oldest)) }
              else Some (sma_sum s));
     let buf = push v (sma_buffer s);
     let sum2 = rnd (sum1 + v);
     let cur = rnd (sum2 / real (size_cb buf));
     Some (cur, s\<lparr>sma_sum := sum2, sma_buffer := buf, sma_current_value := cur\<rparr>)
   }"

definition rsi_formula :: "(real \<Rightarrow> real) \<Rightarrow> real \<Rightarrow> real \<Rightarrow> real" where
  "rsi_formula rnd avg_gain avg_loss =
     (if avg_loss = 0 then 100.0
      else (let rs = rnd (avg_gain / avg_loss) in rnd (100.0 - rnd (100.0 / rnd (1.0 + rs)))))"

definition rsi_update_fp :: "(real \<Rightarrow> real) \<Rightarrow> real \<Rightarrow> RSI \<Rightarrow> real \<times> RSI" where
  "rsi_update_fp rnd v s =
     (case rsi_prev_price s of
        None \<Rightarrow> (0, s\<lparr>rsi_prev_price := Some v\<rparr>)
      | Some prev \<Rightarrow>
          (let change = rnd (v - prev);
               s1 = s\<lparr>rsi_prev_price := Some v\<rparr>;
               gain = (if change > 0 then change else 0);
               loss = (if change < 0 then - change else 0);
               s2 = (if rsi_initialized_count s1 < rsi_period s1
                     then (let s' = s1\<lparr>rsi_avg_gain := rnd (rsi_avg_gain s1 + gain),
                                         rsi_avg_loss := rnd (rsi_avg_loss s1 + loss),
                                         rsi_initialized_count := rsi_initialized_count s1 + 1\<rparr>
                           in if rsi_initialized_count s' = rsi_period s'
                              then s'\<lparr>rsi_avg_gain := rnd (rsi_avg_gain s' / real (rsi_period s')),
                                      rsi_avg_loss := rnd (rsi_avg_loss s' / real (rsi_period s'))\<rparr>
                              else s')
                     else s1\<lparr>rsi_avg_gain :=
                               rnd (rnd (rnd (rsi_avg_gain s1 * (real (rsi_period s1) - 1)) + gain)
                                      / real (rsi_period s1)),
                             rsi_avg_loss :=
                               rnd (rnd (rnd (rsi_avg_loss s1 * (real (rsi_period s1) - 1)) + loss)
                                      / real (rsi_period s1))\<rparr>)
           in if rsi_initialized_count s2 < rsi_period s2 then (0, s2)
              else (let s3 = s2\<lparr>rsi_current_value :=
                                   rsi_formula rnd (rsi_avg_gain s2) (rsi_avg_loss s2)\<rparr>
                    in (rsi_current_value s3, s3))))"

definition atr_update_fp :: "(real \<Rightarrow> real) \<Rightarrow> real \<Rightarrow> real \<Rightarrow> real \<Rightarrow> ATR \<Rightarrow> real \<times> ATR" where
  "atr_update_fp rnd h l c s =
     (let tr = (case atr_prev_close s of
                  None \<Rightarrow> rnd (h - l)
                | Some prev_close \<Rightarrow>
                    (let tr1 = rnd (h - l);
                         tr2 = \<bar>rnd (h - prev_close)\<bar>;
                         tr3 = \<bar>rnd (l - prev_close)\<bar>
                     in max (max tr1 tr2) tr3));
          s1 = s\<lparr>atr_prev_close := Some c\<rparr>;
          s2 = (if atr_initialized_count s1 < atr_period s1
                then (let s' = s1\<lparr>atr_current_value := rnd (atr_current_value s1 + tr),
                                    atr_initialized_count := atr_initialized_count s1 + 1\<rparr>
                      in if atr_initialized_count s' = atr_period s'
                         then s'\<lparr>atr_current_value :=
                                   rnd (atr_current_value s' / real (atr_period s'))\<rparr>
                         else s')
                else s1\<lparr>atr_current_value :=
                          rnd (rnd (rnd (atr_current_value s1 * (real (atr_period s1) - 1)) + tr)
                                 / real (atr_period s1))\<rparr>)
      in (atr_current_value s2, s2))"

definition roc_update_fp ::
  "(real \<Rightarrow> real) \<Rightarrow> real \<Rightarrow> RateOfChange \<Rightarrow> (real \<times> RateOfChange) option" where
  "roc_update_fp rnd v s =
     (let buf = push v (roc_buffer s);
          s1 = s\<lparr>roc_buffer := buf\<rparr>
      in if size_cb buf \<le> roc_period s then Some (0, s1)
         else do {
           old_price \<leftarrow> get buf (roc_period s);
           let cur = (if old_price \<noteq> 0 then rnd (rnd (v - old_price) / old_price) else 0);
           Some (cur, s1\<lparr>roc_current_value := cur\<rparr>)
         })"

definition rs_update_fp ::
  "(real \<Rightarrow> real) \<Rightarrow> real \<Rightarrow> RollingStats \<Rightarrow> (real \<times> RollingStats) option" where
  "rs_update_fp rnd v s = do {
     (sum1, sum_sq1) \<leftarrow>
        (if is_full (rs_buffer s)
         then do { old_val \<leftarrow> get (rs_buffer s) (rs_period s - 1);
                   Some (rnd (rs_sum s - old_val), rnd (rs_sum_sq s - rnd (old_val * old_val))) }
         else Some (rs_sum s, rs_sum_sq s));
     let buf = push v (rs_buffer s);
     let sum2 = rnd (sum1 + v);
     let sum_sq2 = rnd (sum_sq1 + rnd (v * v));
     let n = real (size_cb buf);
     let mean = rnd (sum2 / n);
     let variance0 = rnd (rnd (sum_sq2 / n) - rnd (mean * mean));
     let variance = (if variance0 < 0 then 0 else variance0);
     let sd = rnd (sqrt variance);
     let z = (if sd > 1 / 10 ^ 9 then rnd (rnd (v - mean) / sd) else 0);
     Some (mean, s\<lparr>rs_buffer := buf, rs_sum := sum2, rs_sum_sq := sum_sq2, rs_mean := mean,
                    rs_std_dev := sd, rs_zscore := z\<rparr>)
   }"

subsection \<open>Feeding a sequence to a streaming indicator\<close>

fun sma_feed ::
  "(real \<Rightarrow> real) \<Rightarrow> real list \<Rightarrow> real \<times> SimpleMovingAverage \<Rightarrow> (real \<times> SimpleMovingAverage) option" where
  "sma_feed rnd [] rs = Some rs"
| "sma_feed rnd (x # xs) rs =
     (case sma_update_fp rnd x (snd rs) of None \<Rightarrow> None | Some rs' \<Rightarrow> sma_feed rnd xs rs')"

fun roc_feed ::
  "(real \<Rightarrow> real) \<Rightarrow> real list \<Rightarrow> real \<times> RateOfChange \<Rightarrow> (real \<times> RateOfChange) option" where
  "roc_feed rnd [] rs = Some rs"
| "roc_feed rnd (x # xs) rs =
     (case roc_update_fp rnd x (snd rs) of None \<Rightarrow> None | Some rs' \<Rightarrow> roc_feed rnd xs rs')"

fun rsi_feed :: "(real \<Rightarrow> real) \<Rightarrow> real list \<Rightarrow> real \<times> RSI \<Rightarrow> real \<times> RSI" where
  "rsi_feed rnd [] rs = rs"
| "rsi_feed rnd (x # xs) rs = rsi_feed rnd xs (rsi_update_fp rnd x (snd rs))"

fun atr_feed :: "(real \<Rightarrow> real) \<Rightarrow> (real \<times> real \<times> real) list \<Rightarrow> real \<times> ATR \<Rightarrow> real \<times> ATR" where
  "atr_feed rnd [] rs = rs"
| "atr_feed rnd ((h, l, c) # xs) rs = atr_feed rnd xs (atr_update_fp rnd h l c (snd rs))"

fun rs_feed ::
  "(real \<Rightarrow> real) \<Rightarrow> real list \<Rightarrow> real \<times> RollingStats \<Rightarrow> (real \<times> RollingStats) option" where
  "rs_feed rnd [] rs = Some rs"
| "rs_feed rnd (x # xs) rs =
     (case rs_update_fp rnd x (snd rs) of None \<Rightarrow> None | Some rs' \<Rightarrow> rs_feed rnd xs rs')"

subsection \<open>Batch functions (features.cpp)\<close>

definition sma_loop_body ::
  "(real \<Rightarrow> real) \<Rightarrow> real list \<Rightarrow> nat \<Rightarrow> nat \<Rightarrow> real \<times> real option list \<Rightarrow> real \<times> real option list" where
  "sma_loop_body rnd prices period i st =
     (let sum = rnd (rnd (fst st - prices ! (i - period)) + prices ! i)
      in (sum, (snd st)[i := Some (rnd (sum / real period))]))"

definition sma :: "(real \<Rightarrow> real) \<Rightarrow> real list \<Rightarrow> nat \<Rightarrow> real option list" where
  "sma rnd prices period =
     (let result = replicate (length prices) None
      in if length prices < period then result
         else (let sum = fold (\<lambda>i sum. rnd (sum + prices ! i)) [0..<period] 0.0;
                   result1 = result[period - 1 := Some (rnd (sum / real period))]
               in snd (fold (sma_loop_body rnd prices period) [period..<length prices]
                         (sum, result1))))"

definition changes_of :: "(real \<Rightarrow> real) \<Rightarrow> real list \<Rightarrow> real list" where
  "changes_of rnd prices = map (\<lambda>i. rnd (prices ! i - prices ! (i - 1))) [1..<length prices]"

definition rsi_loop_body ::
  "(real \<Rightarrow> real) \<Rightarrow> real list \<Rightarrow> real list \<Rightarrow> real \<Rightarrow> nat \<Rightarrow> (real \<times> real) \<times> real option list
     \<Rightarrow> (real \<times> real) \<times> real option list" where
  "rsi_loop_body rnd gains losses alpha i st =
     (let avg_gain = rnd (rnd (alpha * gains ! (i - 1)) + rnd (rnd (1 - alpha) * fst (fst st)));
          avg_loss = rnd (rnd (alpha * losses ! (i - 1)) + rnd (rnd (1 - alpha) * snd (fst st)))
      in ((avg_gain, avg_loss), (snd st)[i := Some (rsi_formula rnd avg_gain avg_loss)]))"

definition rsi :: "(real \<Rightarrow> real) \<Rightarrow> real list \<Rightarrow> nat \<Rightarrow> real option list" where
  "rsi rnd prices period =
     (let result = replicate (length prices) None
      in if length prices < period + 1 then result
         else (let gains = map (\<lambda>change. if change > 0 then change else 0.0) (changes_of rnd prices);
                   losses = map (\<lambda>change. if change < 0 then - change else 0.0) (changes_of rnd prices);
                   avg_gain = rnd (fold (\<lambda>i a. rnd (a + gains ! i)) [0..<period] 0.0 / real period);
                   avg_loss = rnd (fold (\<lambda>i a. rnd (a + losses ! i)) [0..<period] 0.0 / real period);
                   result1 = result[period := Some (rsi_formula rnd avg_gain avg_loss)];
                   alpha = rnd (1.0 / real period)
               in snd (fold (rsi_loop_body rnd gains losses alpha) [period + 1..<length prices]
                         ((avg_gain, avg_loss), result1))))"

definition atr_loop_body ::
  "(real \<Rightarrow> real) \<Rightarrow> real list \<Rightarrow> real \<Rightarrow> nat \<Rightarrow> real \<times> real option list \<Rightarrow> real \<times> real option list" where
  "atr_loop_body rnd true_ranges alpha i st =
     (let atr_value = rnd (rnd (alpha * true_ranges ! i) + rnd (rnd (1 - alpha) * fst st))
      in (atr_value, (snd st)[i + 1 := Some atr_value]))"

definition atr ::
  "(real \<Rightarrow> real) \<Rightarrow> real list \<Rightarrow> real list \<Rightarrow> real list \<Rightarrow> nat \<Rightarrow> real option list" where
  "atr rnd hs ls cs period =
     (let result = replicate (length cs) None
      in if length hs \<noteq> length ls \<or> length hs \<noteq> length cs \<or> length hs < period + 1 then result
         else (let true_ranges =
                     map (\<lambda>i. (let tr1 = rnd (hs ! i - ls ! i);
                                    tr2 = \<bar>rnd (hs ! i - cs ! (i - 1))\<bar>;
                                    tr3 = \<bar>rnd (ls ! i - cs ! (i - 1))\<bar>
                                in max (max tr1 tr2) tr3)) [1..<length hs];
                   atr_value = rnd (fold (\<lambda>i a. rnd (a + true_ranges ! i)) [0..<period] 0.0
                                      / real period);
                   result1 = result[period := Some atr_value];
                   alpha = rnd (1.0 / real period)
               in snd (fold (atr_loop_body rnd true_ranges alpha) [period..<length true_ranges]
                         (atr_value, result1))))"

definition momentum_loop_body ::
  "(real \<Rightarrow> real) \<Rightarrow> real list \<Rightarrow> nat \<Rightarrow> nat \<Rightarrow> real option list \<Rightarrow> real option list" where
  "momentum_loop_body rnd prices period i result =
     (if prices ! (i - period) \<noteq> 0
      then result[i := Some (rnd (rnd (prices ! i - prices ! (i - period)) / prices ! (i - period)))]
      else result)"

definition momentum :: "(real \<Rightarrow> real) \<Rightarrow> real list \<Rightarrow> nat \<Rightarrow> real option list" where
  "momentum rnd prices period =
     (let result = replicate (length prices) None
      in if length prices < period + 1 then result
         else fold (momentum_loop_body rnd prices period) [period..<length prices] result)"

text \<open>
  The inner loop of \<^verbatim>\<open>rolling_std\<close> and \<^verbatim>\<open>zscore\<close>: the sum and the sum of squares of the
  window that ends at index i, newest value first.
\<close>

definition window_sums :: "(real \<Rightarrow> real) \<Rightarrow> real list \<Rightarrow> nat \<Rightarrow> nat \<Rightarrow> real \<times> real" where
  "window_sums rnd vals period i =
     fold (\<lambda>j acc. (let val = vals ! (i - j)
                     in (rnd (fst acc + val), rnd (snd acc + rnd (val * val)))))
       [0..<period] (0.0, 0.0)"

definition rolling_std_loop_body ::
  "(real \<Rightarrow> real) \<Rightarrow> real list \<Rightarrow> nat \<Rightarrow> nat \<Rightarrow> real option list \<Rightarrow> real option list" where
  "rolling_std_loop_body rnd vals period i result =
     (let ws = window_sums rnd vals period i;
          mean = rnd (fst ws / real period);
          variance = rnd (rnd (snd ws / real period) - rnd (mean * mean))
      in result[i := (if variance < 0 then None else Some (rnd (sqrt variance)))])"

definition rolling_std :: "(real \<Rightarrow> real) \<Rightarrow> real list \<Rightarrow> nat \<Rightarrow> real option list" where
  "rolling_std rnd vals period =
     (let result = replicate (length vals) None
      in if length vals < period then result
         else fold (rolling_std_loop_body rnd vals period) [period - 1..<length vals] result)"

definition zscore_loop_body ::
  "(real \<Rightarrow> real) \<Rightarrow> real list \<Rightarrow> nat \<Rightarrow> nat \<Rightarrow> real option list \<Rightarrow> real option list" where
  "zscore_loop_body rnd vals period i result =
     (let ws = window_sums rnd vals period i;
          mean = rnd (fst ws / real period);
          variance = rnd (rnd (snd ws / real period) - rnd (mean * mean))
      in if variance < 0 then result
         else (let std_dev = rnd (sqrt variance)
               in if std_dev > 0.0
                  then result[i := Some (rnd (rnd (vals ! i - mean) / std_dev))]
                  else result))"

definition zscore :: "(real \<Rightarrow> real) \<Rightarrow> real list \<Rightarrow> nat \<Rightarrow> real option list" where
  "zscore rnd vals period =
     (let result = replicate (length vals) None
      in if length vals < period then result
         else fold (zscore_loop_body rnd vals period) [period - 1..<length vals] result)"

section \<open>Quantities followed through a sequence of updates\<close>

text \<open>
  The running sum that both \<^verbatim>\<open>SimpleMovingAverage\<close> and \<^verbatim>\<open>sma\<close> hold after n prices:
  the same additions and subtractions, in the same order.
\<close>

fun running_sum :: "(real \<Rightarrow> real) \<Rightarrow> nat \<Rightarrow> real list \<Rightarrow> nat \<Rightarrow> real" where
  "running_sum rnd p xs 0 = 0"
| "running_sum rnd p xs (Suc n) =
     (if n < p then rnd (running_sum rnd p xs n + xs ! n)
      else rnd (rnd (running_sum rnd p xs n - xs ! (n - p)) + xs ! n))"

text \<open>The state of a streaming indicator after the first n prices of a sequence.\<close>

definition sma_at :: "(real \<Rightarrow> real) \<Rightarrow> nat \<Rightarrow> real list \<Rightarrow> nat \<Rightarrow> SimpleMovingAverage \<Rightarrow> bool" where
  "sma_at rnd p prices n s =
     (sma_period s = p \<and> cb_wf (sma_buffer s) \<and> capacity (sma_buffer s) = p \<and>
      contents (sma_buffer s) = take p (rev (take n prices)) \<and>
      sma_sum s = running_sum rnd p prices n)"

definition roc_at :: "nat \<Rightarrow> real list \<Rightarrow> nat \<Rightarrow> RateOfChange \<Rightarrow> bool" where
  "roc_at p prices n s =
     (roc_period s = p \<and> cb_wf (roc_buffer s) \<and> capacity (roc_buffer s) = p + 1 \<and>
      contents (roc_buffer s) = take (p + 1) (rev (take n prices)))"

text \<open>The rate of change at index i, as both \<^verbatim>\<open>RateOfChange\<close> and \<^verbatim>\<open>momentum\<close> compute it.\<close>

definition roc_cell :: "(real \<Rightarrow> real) \<Rightarrow> real list \<Rightarrow> nat \<Rightarrow> nat \<Rightarrow> real" where
  "roc_cell rnd prices p i = rnd (rnd (prices ! i - prices ! (i - p)) / prices ! (i - p))"

text \<open>
  Wilder's average after p + d changes: the mean of the first p, then d smoothing steps.
\<close>

fun wilder :: "nat \<Rightarrow> real list \<Rightarrow> nat \<Rightarrow> real" where
  "wilder p g 0 = sum_list (take p g) / real p"
| "wilder p g (Suc d) = (wilder p g d * (real p - 1) + g ! (p + d)) / real p"

definition gain_of :: "real \<Rightarrow> real" where
  "gain_of change = (if change > 0 then change else 0)"

definition loss_of :: "real \<Rightarrow> real" where
  "loss_of change = (if change < 0 then - change else 0)"

text \<open>Four prices that are small multiples of the smallest positive double.\<close>

definition subnormal_prices :: "real list" where
  "subnormal_prices = [10 * min_subnormal, 12 * min_subnormal, 8 * min_subnormal, 9 * min_subnormal]"

section \<open>Monotone trailing stop\<close>

lemma check_exit_side: "rm_side (snd (check_exit bar r)) = rm_side r"
  by (simp add: check_exit_def Let_def)

lemma check_exit_long: "rm_side r = 1 \<Longrightarrow> stop_loss r \<le> stop_loss (snd (check_exit bar r))"
  by (simp add: check_exit_def Let_def)

lemma check_exit_short: "rm_side r = - 1 \<Longrightarrow> stop_loss (snd (check_exit bar r)) \<le> stop_loss r"
  by (simp add: check_exit_def Let_def)

lemma check_exits_long: "rm_side r = 1 \<Longrightarrow> stop_loss r \<le> stop_loss (check_exits bars r)"
proof (induction bars arbitrary: r)
  case Nil
  show ?case by simp
next
  case (Cons bar bars)
  have "stop_loss r \<le> stop_loss (snd (check_exit bar r))"
    using Cons.prems by (rule check_exit_long)
  also have "\<dots> \<le> stop_loss (check_exits bars (snd (check_exit bar r)))"
    using Cons.prems by (intro Cons.IH) (simp add: check_exit_side)
  finally show ?case by simp
qed

lemma check_exits_short: "rm_side r = - 1 \<Longrightarrow> stop_loss (check_exits bars r) \<le> stop_loss r"
proof (induction bars arbitrary: r)
  case Nil
  show ?case by simp
next
  case (Cons bar bars)
  have "stop_loss (check_exits bars (snd (check_exit bar r))) \<le> stop_loss (snd (check_exit bar r))"
    using Cons.prems by (intro Cons.IH) (simp add: check_exit_side)
  also have "\<dots> \<le> stop_loss r"
    using Cons.prems by (rule check_exit_short)
  finally show ?case by simp
qed

lemma check_exits_append: "check_exits (xs @ ys) r = check_exits ys (check_exits xs r)"
  by (induction xs arbitrary: r) simp_all

lemma check_exits_side: "rm_side (check_exits bars r) = rm_side r"
  by (induction bars arbitrary: r) (simp_all add: check_exit_side)

text \<open>
  Claim C4. While the risk manager holds a long position, the stored stop price never
  decreases from one \<^verbatim>\<open>check_exit\<close> call to a later one; while it holds a short position,
  the stop never increases.
\<close>

theorem trailing_stop_monotone:
  "(rm_side r = 1 \<longrightarrow> stop_loss (check_exits pre r) \<le> stop_loss (check_exits (pre @ post) r)) \<and>
   (rm_side r = - 1 \<longrightarrow> stop_loss (check_exits (pre @ post) r) \<le> stop_loss (check_exits pre r))"
proof (intro conjI impI)
  assume "rm_side r = 1"
  then have "rm_side (check_exits pre r) = 1" by (simp add: check_exits_side)
  then show "stop_loss (check_exits pre r) \<le> stop_loss (check_exits (pre @ post) r)"
    unfolding check_exits_append by (rule check_exits_long)
next
  assume "rm_side r = - 1"
  then have "rm_side (check_exits pre r) = - 1" by (simp add: check_exits_side)
  then show "stop_loss (check_exits (pre @ post) r) \<le> stop_loss (check_exits pre r)"
    unfolding check_exits_append by (rule check_exits_short)
qed

lemma risk_long_simps:
  "rm_side risk_long = 1" "stop_loss risk_long = 98" "highest_price risk_long = 100"
  "atr_at_entry risk_long = 1" "atr_stop_multiplier (config risk_long) = 2"
  by (simp_all add: risk_long_def on_entry_def RiskManager_new_def engine_config_def Let_def)

lemma risk_short_simps:
  "rm_side risk_short = - 1" "stop_loss risk_short = 102" "lowest_price risk_short = 100"
  "atr_at_entry risk_short = 1" "atr_stop_multiplier (config risk_short) = 2"
  by (simp_all add: risk_short_def on_entry_def RiskManager_new_def engine_config_def Let_def)

theorem trailing_stop_monotone_witness:
  "rm_side risk_long = 1 \<and>
   stop_loss (check_exits [Bar_new 60 100 101 99.5 100.5 1000] risk_long) = 99 \<and>
   stop_loss (check_exits ([Bar_new 60 100 101 99.5 100.5 1000] @ [Bar_new 120 100.5 105 100 104 1000])
                risk_long) = 103 \<and>
   stop_loss (check_exits [Bar_new 60 100 101 99.5 100.5 1000] risk_long)
     \<le> stop_loss (check_exits ([Bar_new 60 100 101 99.5 100.5 1000] @ [Bar_new 120 100.5 105 100 104 1000])
                    risk_long) \<and>
   rm_side risk_short = - 1 \<and>
   stop_loss (check_exits ([Bar_new 60 100 100.5 99 99.5 1000] @ [Bar_new 120 99.5 100 95 96 1000])
                risk_short)
     \<le> stop_loss (check_exits [Bar_new 60 100 100.5 99 99.5 1000] risk_short)"
  using trailing_stop_monotone [of risk_long "[Bar_new 60 100 101 99.5 100.5 1000]"
          "[Bar_new 120 100.5 105 100 104 1000]"]
        trailing_stop_monotone [of risk_short "[Bar_new 60 100 100.5 99 99.5 1000]"
          "[Bar_new 120 99.5 100 95 96 1000]"]
  by (simp add: risk_long_simps risk_short_simps check_exit_def Bar_new_def Let_def)

section \<open>No look-ahead\<close>

lemma observed_submit_order: "observed (submit_order sd q e) = observed e"
  by (simp add: observed_def submit_order_def)

lemma observed_close_position: "observed (close_position e) = observed e"
  by (simp add: close_position_def observed_submit_order)

lemma observed_risk_check: "observed (fst (risk_check bar (e, r))) = observed e"
  by (simp add: risk_check_def observed_close_position split: prod.splits)

lemma observed_execution_logic: "observed (fst (execution_logic cal bar signal (e, r))) = observed e"
  by (simp add: execution_logic_def observed_close_position observed_submit_order Let_def
      split: prod.splits)

lemma observed_trade_step:
  "observed (fst (trade_step cal bar signal (e, r))) = observed (on_bar_open bar e)"
proof -
  obtain e2 r2 where s2: "risk_check bar (on_bar_open bar e, r) = (e2, r2)"
    by (cases "risk_check bar (on_bar_open bar e, r)")
  obtain e3 r3 where s3: "execution_logic cal bar signal (e2, r2) = (e3, r3)"
    by (cases "execution_logic cal bar signal (e2, r2)")
  have "observed e3 = observed e2"
    using observed_execution_logic [of cal bar signal e2 r2] s3 by simp
  also have "\<dots> = observed (on_bar_open bar e)"
    using observed_risk_check [of bar "on_bar_open bar e" r] s2 by simp
  finally show ?thesis
    by (simp add: trade_step_def s2 s3)
qed













section \<open>The is_invested contract\<close>

text \<open>
  Claim C8. \<^verbatim>\<open>is_invested\<close> compares the position with 0 exactly. After a buy of
  5e-10 units from flat the position is within 1e-9 of zero, \<^verbatim>\<open>execute_trade\<close> itself
  records the side as flat, and \<^verbatim>\<open>is_invested\<close> still answers true.
\<close>

theorem is_invested_ignores_epsilon:
  "is_invested (on_bar_open (Bar_new 120 100 100 100 100 1000)
                  (submit_order 1 (5 / 10 ^ 10) (ExecutionEngine_new 100000))) \<and>
   \<not> \<bar>position (on_bar_open (Bar_new 120 100 100 100 100 1000)
                  (submit_order 1 (5 / 10 ^ 10) (ExecutionEngine_new 100000)))\<bar> > 1 / 10 ^ 9 \<and>
   position_side (on_bar_open (Bar_new 120 100 100 100 100 1000)
                  (submit_order 1 (5 / 10 ^ 10) (ExecutionEngine_new 100000))) = 0"
  by (simp add: is_invested_def on_bar_open_def submit_order_def ExecutionEngine_new_def
      execute_trade_def capture_entry_def buy_or_sell_def record_trade_def update_state_def
      Bar_new_def Let_def)


section \<open>Cash conservation\<close>

lemma exec_inv_new: "exec_inv (ExecutionEngine_new c)"
  by (simp add: exec_inv_def ExecutionEngine_new_def)

lemma exec_inv_entry:
  assumes "exec_inv e" "position e = 0" "sd \<noteq> 0"
  shows "exec_inv (observed (execute_trade t sd q p e))"
  using assms
  by (simp add: exec_inv_def observed_def execute_trade_def capture_entry_def buy_or_sell_def
      record_trade_def update_state_def Let_def)

lemma exec_inv_exit_long:
  assumes "exec_inv e" "position e > 0" "pending_order_side e \<noteq> 0"
  shows "exec_inv (observed (execute_trade t (pending_order_side e) (pending_order_qty e) p e))"
  using assms
  by (simp add: exec_inv_def observed_def execute_trade_def capture_entry_def buy_or_sell_def
      record_trade_def update_state_def Let_def algebra_simps split: if_splits)

lemma exec_inv_exit_short:
  assumes "exec_inv e" "position e < 0" "pending_order_side e \<noteq> 0"
  shows "exec_inv (observed (execute_trade t (pending_order_side e) (pending_order_qty e) p e))"
  using assms
  by (simp add: exec_inv_def observed_def execute_trade_def capture_entry_def buy_or_sell_def
      record_trade_def update_state_def Let_def algebra_simps split: if_splits)

lemma on_bar_open_observed:
  "pending_order_side e \<noteq> 0 \<Longrightarrow>
   on_bar_open bar e
     = observed (execute_trade (timestamp bar) (pending_order_side e) (pending_order_qty e) (bopen bar) e)"
  by (simp add: on_bar_open_def observed_def)

lemma exec_inv_on_bar_open: "exec_inv e \<Longrightarrow> exec_inv (on_bar_open bar e)"
proof (cases "pending_order_side e = 0")
  case True
  assume "exec_inv e"
  with True show ?thesis by (simp add: on_bar_open_def)
next
  case False
  assume inv: "exec_inv e"
  consider "position e = 0" | "position e > 0" | "position e < 0" by linarith
  then show ?thesis
  proof cases
    case 1
    with inv False show ?thesis by (simp add: on_bar_open_observed exec_inv_entry)
  next
    case 2
    with inv False show ?thesis by (simp add: on_bar_open_observed exec_inv_exit_long)
  next
    case 3
    with inv False show ?thesis by (simp add: on_bar_open_observed exec_inv_exit_short)
  qed
qed

lemma exec_inv_close_position: "exec_inv e \<Longrightarrow> exec_inv (close_position e)"
  by (simp add: exec_inv_def close_position_def submit_order_def)

lemma exec_inv_submit_flat: "exec_inv e \<Longrightarrow> \<not> is_invested e \<Longrightarrow> exec_inv (submit_order sd q e)"
  by (simp add: exec_inv_def is_invested_def submit_order_def)

lemma exec_inv_risk_check: "exec_inv e \<Longrightarrow> exec_inv (fst (risk_check bar (e, r)))"
  by (simp add: risk_check_def exec_inv_close_position split: prod.splits)

lemma exec_inv_execution_logic: "exec_inv e \<Longrightarrow> exec_inv (fst (execution_logic cal bar signal (e, r)))"
  by (simp add: execution_logic_def exec_inv_close_position exec_inv_submit_flat Let_def
      split: prod.splits)

lemma exec_inv_trade_step:
  assumes "exec_inv (fst s)"
  shows "exec_inv (fst (trade_step cal bar signal s))"
proof -
  obtain e2 r2 where s2: "risk_check bar (on_bar_open bar (fst s), snd s) = (e2, r2)"
    by (cases "risk_check bar (on_bar_open bar (fst s), snd s)")
  obtain e3 r3 where s3: "execution_logic cal bar signal (e2, r2) = (e3, r3)"
    by (cases "execution_logic cal bar signal (e2, r2)")
  have "exec_inv e2"
    using exec_inv_risk_check [OF exec_inv_on_bar_open [OF assms], of bar bar "snd s"] s2 by simp
  then have "exec_inv e3"
    using exec_inv_execution_logic [of e2 cal bar signal r2] s3 by simp
  then show ?thesis
    by (simp add: trade_step_def s2 s3)
qed

lemma capital_on_bar_open: "capital (on_bar_open bar e) = capital e"
  by (simp add: on_bar_open_def execute_trade_def capture_entry_def buy_or_sell_def
      record_trade_def update_state_def Let_def)

lemma capital_observed: "capital (observed e) = capital e"
  by (simp add: observed_def)

lemma exec_inv_trade_run: "exec_inv (fst s) \<Longrightarrow> exec_inv (fst (trade_run cal bars s))"
proof (induction bars arbitrary: s)
  case Nil
  then show ?case by simp
next
  case (Cons x bars)
  obtain bar signal where x: "x = (bar, signal)" by (cases x)
  have "exec_inv (fst (trade_step cal bar signal s))"
    using Cons.prems by (rule exec_inv_trade_step)
  then show ?case
    by (simp add: x Cons.IH)
qed

lemma capital_trade_step: "capital (fst (trade_step cal bar signal s)) = capital (fst s)"
proof -
  have "capital (observed (fst (trade_step cal bar signal (fst s, snd s))))
          = capital (observed (on_bar_open bar (fst s)))"
    by (simp only: observed_trade_step)
  then show ?thesis
    by (simp add: capital_observed capital_on_bar_open)
qed

lemma capital_trade_run: "capital (fst (trade_run cal bars s)) = capital (fst s)"
proof (induction bars arbitrary: s)
  case Nil
  show ?case by simp
next
  case (Cons x bars)
  obtain bar signal where x: "x = (bar, signal)" by (cases x)
  show ?case
    by (simp add: x Cons.IH capital_trade_step)
qed


lemmas step_defs = trade_step_def risk_check_def execution_logic_def on_bar_open_def
  execute_trade_def capture_entry_def buy_or_sell_def record_trade_def update_state_def
  is_invested_def close_position_def submit_order_def can_enter_def is_new_day_def on_entry_def
  check_exit_def on_exit_def update_cooldown_def Bar_new_def Let_def

lemmas init_defs = trading_init_def ExecutionEngine_new_def RiskManager_new_def engine_config_def
  utc_day_def






























section \<open>Daily cap and cooldown\<close>

lemma check_exit_keeps:
  "trades_today (snd (check_exit bar r)) = trades_today r"
  "last_trade_day (snd (check_exit bar r)) = last_trade_day r"
  "cooldown_counter (snd (check_exit bar r)) = cooldown_counter r"
  "config (snd (check_exit bar r)) = config r"
  by (simp_all add: check_exit_def Let_def)

lemma on_exit_keeps:
  "trades_today (on_exit w r) = trades_today r"
  "last_trade_day (on_exit w r) = last_trade_day r"
  "cooldown_counter (on_exit w r) = (if w then cooldown_counter r else cooldown_bars (config r))"
  "config (on_exit w r) = config r"
  by (simp_all add: on_exit_def Let_def)

lemma on_entry_keeps:
  "trades_today (on_entry p a sd r) = trades_today r + 1"
  "last_trade_day (on_entry p a sd r) = last_trade_day r"
  "cooldown_counter (on_entry p a sd r) = cooldown_counter r"
  "config (on_entry p a sd r) = config r"
  by (simp_all add: on_entry_def Let_def)

lemma update_cooldown_keeps:
  "trades_today (update_cooldown r) = trades_today r"
  "last_trade_day (update_cooldown r) = last_trade_day r"
  "cooldown_counter (update_cooldown r) = (if cooldown_counter r > 0 then cooldown_counter r - 1 else cooldown_counter r)"
  "config (update_cooldown r) = config r"
  by (simp_all add: update_cooldown_def)

lemma can_enter_keeps:
  "trades_today (snd (can_enter cal t r)) = (if cal t \<noteq> cal (last_trade_day r) then 0 else trades_today r)"
  "last_trade_day (snd (can_enter cal t r)) = (if cal t \<noteq> cal (last_trade_day r) then t else last_trade_day r)"
  "cooldown_counter (snd (can_enter cal t r)) = cooldown_counter r"
  "config (snd (can_enter cal t r)) = config r"
  by (simp_all add: can_enter_def is_new_day_def Let_def)

lemma can_enter_fst:
  "fst (can_enter cal t r) \<longleftrightarrow>
     (if cal t \<noteq> cal (last_trade_day r) then 0 else trades_today r) < max_trades_per_day (config r)
     \<and> cooldown_counter r \<le> 0"
  by (auto simp add: can_enter_def is_new_day_def Let_def)

lemma risk_check_snd:
  "snd (risk_check bar s)
     = (if is_invested (fst s)
        then (if fst (check_exit bar (snd s)) then on_exit False (snd (check_exit bar (snd s)))
              else snd (check_exit bar (snd s)))
        else snd s)"
  by (simp add: risk_check_def split: prod.splits)

lemma execution_logic_snd:
  "snd (execution_logic cal bar signal s)
     = (if signal \<noteq> 0 \<and> \<not> is_invested (fst s)
        then (if fst (can_enter cal (timestamp bar) (snd s))
              then on_entry (close bar) (close bar * 0.01) signal
                     (snd (can_enter cal (timestamp bar) (snd s)))
              else snd (can_enter cal (timestamp bar) (snd s)))
        else if signal = 0 \<and> is_invested (fst s) then on_exit True (snd s)
        else snd s)"
  by (simp add: execution_logic_def Let_def split: prod.splits)

lemma trade_step_snd:
  "snd (trade_step cal bar signal s)
     = update_cooldown
         (snd (execution_logic cal bar signal (risk_check bar (on_bar_open bar (fst s), snd s))))"
  by (simp add: trade_step_def split: prod.splits)

lemma enters_iff:
  "enters cal bar signal s \<longleftrightarrow>
     gate bar signal s \<and>
     fst (can_enter cal (timestamp bar) (snd (risk_check bar (on_bar_open bar (fst s), snd s))))"
  by (simp add: enters_def gate_def split: prod.splits)

lemma risk_check_keeps:
  "trades_today (snd (risk_check bar s)) = trades_today (snd s)"
  "last_trade_day (snd (risk_check bar s)) = last_trade_day (snd s)"
  "config (snd (risk_check bar s)) = config (snd s)"
  "cooldown_counter (snd (risk_check bar s))
     = (if is_invested (fst s) \<and> fst (check_exit bar (snd s))
        then cooldown_bars (config (snd s)) else cooldown_counter (snd s))"
  by (simp_all add: risk_check_snd check_exit_keeps on_exit_keeps)

text \<open>What one bar does to the day counter, the stored day and the configuration.\<close>

lemma trade_step_config: "config (snd (trade_step cal bar signal s)) = config (snd s)"
  by (simp add: trade_step_snd execution_logic_snd update_cooldown_keeps on_entry_keeps
      can_enter_keeps on_exit_keeps risk_check_keeps)

lemma trade_step_last_trade_day:
  "last_trade_day (snd (trade_step cal bar signal s))
     = (if gate bar signal s \<and> cal (timestamp bar) \<noteq> cal (last_trade_day (snd s))
        then timestamp bar else last_trade_day (snd s))"
  by (simp add: trade_step_snd execution_logic_snd update_cooldown_keeps on_entry_keeps
      can_enter_keeps on_exit_keeps risk_check_keeps gate_def)

lemma trade_step_trades_today:
  "trades_today (snd (trade_step cal bar signal s))
     = (if gate bar signal s
        then (if cal (timestamp bar) \<noteq> cal (last_trade_day (snd s)) then 0 else trades_today (snd s))
             + (if enters cal bar signal s then 1 else 0)
        else trades_today (snd s))"
  by (simp add: trade_step_snd execution_logic_snd update_cooldown_keeps on_entry_keeps
      can_enter_keeps on_exit_keeps risk_check_keeps gate_def enters_iff)

lemma enters_gate: "enters cal bar signal s \<Longrightarrow> gate bar signal s"
  by (simp add: enters_iff)

lemma enters_below_cap:
  "enters cal bar signal s \<Longrightarrow>
   (if cal (timestamp bar) \<noteq> cal (last_trade_day (snd s)) then 0 else trades_today (snd s))
     < max_trades_per_day (config (snd s))"
  by (simp add: enters_iff can_enter_fst risk_check_keeps split: if_splits)

lemma entry_times_subset:
  "set (entry_times cal bars s) \<subseteq> (\<lambda>x. timestamp (fst x)) ` set bars"
proof (induction bars arbitrary: s)
  case Nil
  show ?case by simp
next
  case (Cons x bars)
  obtain bar signal where x: "x = (bar, signal)" by (cases x)
  show ?case
    using Cons.IH [of "trade_step cal bar signal s"] by (auto simp: x)
qed

lemma no_entries_on_other_days:
  assumes "\<forall>x\<in>set bars. cal (timestamp (fst x)) \<noteq> d"
  shows "filter (\<lambda>t. cal t = d) (entry_times cal bars s) = []"
proof -
  have "\<forall>t\<in>set (entry_times cal bars s). cal t \<noteq> d"
    using entry_times_subset [of cal bars s] assms by auto
  then show ?thesis
    by (simp add: filter_empty_conv)
qed

lemma cap_aux:
  fixes cal :: "int \<Rightarrow> 'd::linorder"
  assumes "sorted (map (\<lambda>x. cal (timestamp (fst x))) bars)"
    and "0 \<le> trades_today (snd s)"
    and "trades_today (snd s) \<le> max_trades_per_day (config (snd s))"
    and "trades_today (snd s) = 0 \<or>
         (\<forall>x\<in>set bars. cal (last_trade_day (snd s)) \<le> cal (timestamp (fst x)))"
  shows "int (length (filter (\<lambda>t. cal t = d) (entry_times cal bars s)))
           \<le> (if cal (last_trade_day (snd s)) = d
               then max_trades_per_day (config (snd s)) - trades_today (snd s)
               else max_trades_per_day (config (snd s)))"
  using assms
proof (induction bars arbitrary: s)
  case Nil
  then show ?case by simp
next
  case (Cons x bars)
  obtain bar sg where x: "x = (bar, sg)" by (cases x)
  define s' where "s' = trade_step cal bar sg s"
  define M where "M = max_trades_per_day (config (snd s))"
  define n where "n = trades_today (snd s)"
  define L where "L = last_trade_day (snd s)"
  define e where "e = cal (timestamp bar)"
  define n1 where "n1 = (if e \<noteq> cal L then 0 else n)"
  define rest where "rest = int (length (filter (\<lambda>t. cal t = d) (entry_times cal bars s')))"
  have sorted_tl: "sorted (map (\<lambda>x. cal (timestamp (fst x))) bars)"
    and ge: "\<forall>y\<in>set bars. e \<le> cal (timestamp (fst y))"
    using Cons.prems(1) by (auto simp: x e_def)
  have cfg: "max_trades_per_day (config (snd s')) = M"
    by (simp add: s'_def M_def trade_step_config)
  have n': "trades_today (snd s')
              = (if gate bar sg s then n1 + (if enters cal bar sg s then 1 else 0) else n)"
    by (simp add: s'_def n_def n1_def e_def L_def trade_step_trades_today)
  have L': "last_trade_day (snd s') = (if gate bar sg s \<and> e \<noteq> cal L then timestamp bar else L)"
    by (simp add: s'_def e_def L_def trade_step_last_trade_day)
  have below: "enters cal bar sg s \<Longrightarrow> n1 < M"
    using enters_below_cap [of cal bar sg s]
    by (simp add: n1_def e_def L_def n_def M_def split: if_splits)
  have eg: "enters cal bar sg s \<Longrightarrow> gate bar sg s"
    by (rule enters_gate)
  have n0: "0 \<le> n" and nM: "n \<le> M"
    using Cons.prems(2,3) by (simp_all add: n_def M_def)
  have far: "n = 0 \<or> (cal L \<le> e \<and> (\<forall>y\<in>set bars. cal L \<le> cal (timestamp (fst y))))"
    using Cons.prems(4) by (auto simp: x n_def L_def e_def)
  have p2: "0 \<le> trades_today (snd s')"
    using n0 by (simp add: n' n1_def)
  have p3: "trades_today (snd s') \<le> max_trades_per_day (config (snd s'))"
    using nM n0 below by (auto simp: n' cfg n1_def split: if_splits)
  have p4: "trades_today (snd s') = 0 \<or>
            (\<forall>y\<in>set bars. cal (last_trade_day (snd s')) \<le> cal (timestamp (fst y)))"
    using far ge by (auto simp: n' L' n1_def e_def)
  have "rest \<le> (if cal (last_trade_day (snd s')) = d
                   then M - trades_today (snd s') else M)"
    using Cons.IH [OF sorted_tl p2 p3 p4] unfolding rest_def cfg .
  then have IH: "rest \<le> (if cal (if gate bar sg s \<and> e \<noteq> cal L then timestamp bar else L) = d
                   then M - (if gate bar sg s then n1 + (if enters cal bar sg s then 1 else 0) else n)
                   else M)"
    unfolding n' L' .
  have zero: "d < e \<Longrightarrow> rest = 0"
  proof -
    assume "d < e"
    with ge have "\<forall>y\<in>set bars. cal (timestamp (fst y)) \<noteq> d" by auto
    then show "rest = 0"
      by (simp add: rest_def no_entries_on_other_days)
  qed
  have total: "int (length (filter (\<lambda>t. cal t = d) (entry_times cal (x # bars) s)))
                 = (if enters cal bar sg s \<and> e = d then 1 else 0) + rest"
    by (simp add: x rest_def s'_def e_def)
  have "(if enters cal bar sg s \<and> e = d then 1 else 0) + rest
          \<le> (if cal L = d then M - n else M)"
  proof (cases "gate bar sg s")
    case False
    then have "\<not> enters cal bar sg s" using eg by blast
    with False IH show ?thesis by (simp split: if_splits)
  next
    case True
    show ?thesis
    proof (cases "e = cal L")
      case same: True
      with True IH below nM show ?thesis
        by (auto simp: n1_def e_def split: if_splits)
    next
      case new: False
      show ?thesis
      proof (cases "cal L = d")
        case False
        with True new IH below show ?thesis
          by (auto simp: n1_def e_def split: if_splits)
      next
        case Ld: True
        show ?thesis
        proof (cases "n = 0")
          case True
          with \<open>gate bar sg s\<close> new Ld IH nM show ?thesis
            by (auto simp: n1_def e_def split: if_splits)
        next
          case False
          with far have "cal L \<le> e" by simp
          with new Ld have "d < e" by simp
          then have "rest = 0" by (rule zero)
          with new Ld nM show ?thesis by simp
        qed
      qed
    qed
  qed
  then show ?case
    unfolding total L_def M_def n_def .
qed

lemma cooldown_aux:
  assumes "int (length bars) \<le> cooldown_counter (snd s)"
    and "int (length bars) \<le> cooldown_bars (config (snd s))"
  shows "entry_times cal bars s = []"
  using assms
proof (induction bars arbitrary: s)
  case Nil
  show ?case by simp
next
  case (Cons x bars)
  obtain bar sg where x: "x = (bar, sg)" by (cases x)
  define s2 where "s2 = risk_check bar (on_bar_open bar (fst s), snd s)"
  have c2: "int (length bars) + 1 \<le> cooldown_counter (snd s2)"
    using Cons.prems by (simp add: s2_def risk_check_keeps)
  then have blocked: "\<not> enters cal bar sg s"
    by (simp add: enters_iff can_enter_fst s2_def)
  have "cooldown_counter (snd (trade_step cal bar sg s)) = cooldown_counter (snd s2) - 1"
    using c2 by (simp add: trade_step_snd execution_logic_snd update_cooldown_keeps on_entry_keeps
        can_enter_keeps on_exit_keeps s2_def)
  with c2 have "int (length bars) \<le> cooldown_counter (snd (trade_step cal bar sg s))"
    by simp
  moreover have "int (length bars) \<le> cooldown_bars (config (snd (trade_step cal bar sg s)))"
    using Cons.prems by (simp add: trade_step_config)
  ultimately have "entry_times cal bars (trade_step cal bar sg s) = []"
    by (rule Cons.IH)
  with blocked show ?case
    by (simp add: x)
qed

text \<open>
  Claim C5. \<^verbatim>\<open>can_enter\<close> first resets the day counter when the calendar day of the bar
  differs from the stored day; it then answers true iff the counter is below
  \<^verbatim>\<open>max_trades_per_day\<close> and the cooldown counter (never negative) is 0. Consequently, over
  bars in calendar order, the entries decided on bars of one calendar day never exceed
  \<^verbatim>\<open>max_trades_per_day\<close>: an entry is counted on the day of the bar that submits it.
\<close>

theorem daily_trade_cap:
  fixes cal :: "int \<Rightarrow> 'd::linorder"
  assumes "0 \<le> cooldown_counter r"
    and "0 \<le> max_trades_per_day cfg"
    and "sorted (map (\<lambda>x. cal (timestamp (fst x))) bars)"
  shows "(fst (can_enter cal t r) \<longleftrightarrow>
            (if cal t \<noteq> cal (last_trade_day r) then 0 else trades_today r)
              < max_trades_per_day (config r)
            \<and> cooldown_counter r = 0) \<and>
         trades_today (snd (can_enter cal t r))
           = (if cal t \<noteq> cal (last_trade_day r) then 0 else trades_today r) \<and>
         int (length (filter (\<lambda>t. cal t = d)
                (entry_times cal bars (ExecutionEngine_new c, RiskManager_new cfg))))
           \<le> max_trades_per_day cfg"
proof -
  let ?s = "(ExecutionEngine_new c, RiskManager_new cfg)"
  have "int (length (filter (\<lambda>t. cal t = d) (entry_times cal bars ?s)))
          \<le> (if cal (last_trade_day (snd ?s)) = d
              then max_trades_per_day (config (snd ?s)) - trades_today (snd ?s)
              else max_trades_per_day (config (snd ?s)))"
    using assms(2,3) by (intro cap_aux) (simp_all add: RiskManager_new_def)
  then have "int (length (filter (\<lambda>t. cal t = d) (entry_times cal bars ?s)))
          \<le> max_trades_per_day cfg"
    by (simp add: RiskManager_new_def split: if_splits)
  moreover have "fst (can_enter cal t r) \<longleftrightarrow>
            (if cal t \<noteq> cal (last_trade_day r) then 0 else trades_today r)
              < max_trades_per_day (config r)
            \<and> cooldown_counter r = 0"
    using assms(1) by (auto simp: can_enter_fst)
  ultimately show ?thesis
    by (simp add: can_enter_keeps)
qed

lemma round_trip_entries: "entry_times utc_day round_trip trading_init = [60]"
  by (simp add: round_trip_def enters_def step_defs init_defs)

theorem daily_trade_cap_witness:
  "0 \<le> cooldown_counter (RiskManager_new engine_config) \<and>
   0 \<le> max_trades_per_day engine_config \<and>
   sorted (map (\<lambda>x. utc_day (timestamp (fst x))) round_trip) \<and>
   fst (can_enter utc_day 60 (RiskManager_new engine_config)) \<and>
   trades_today (snd (can_enter utc_day 86400 (on_entry 100 1 1 (RiskManager_new engine_config)))) = 0 \<and>
   entry_times utc_day round_trip trading_init = [60] \<and>
   int (length (filter (\<lambda>t. utc_day t = 0)
          (entry_times utc_day round_trip (ExecutionEngine_new 100000, RiskManager_new engine_config))))
     \<le> max_trades_per_day engine_config"
proof -
  have a: "0 \<le> cooldown_counter (RiskManager_new engine_config)"
    by (simp add: RiskManager_new_def)
  have a': "0 \<le> cooldown_counter (on_entry 100 1 1 (RiskManager_new engine_config))"
    by (simp add: RiskManager_new_def on_entry_def Let_def)
  have b: "0 \<le> max_trades_per_day engine_config"
    by (simp add: engine_config_def)
  have c: "sorted (map (\<lambda>x. utc_day (timestamp (fst x))) round_trip)"
    by (simp add: round_trip_def Bar_new_def utc_day_def)
  note t1 = daily_trade_cap [OF a b c, of 60 0 100000]
  note t2 = daily_trade_cap [OF a' b c, of 86400 0 100000]
  have d: "fst (can_enter utc_day 60 (RiskManager_new engine_config))"
    by (rule iffD2 [OF conjunct1 [OF t1]])
      (simp add: RiskManager_new_def engine_config_def utc_day_def)
  have e: "trades_today (snd (can_enter utc_day 86400 (on_entry 100 1 1 (RiskManager_new engine_config)))) = 0"
    unfolding conjunct1 [OF conjunct2 [OF t2]]
    by (simp add: RiskManager_new_def on_entry_def Let_def utc_day_def)
  from a b c d e t1 round_trip_entries show ?thesis
    by blast
qed

text \<open>
  Counted by the entry time of the trade ledger, which is the timestamp of the bar that
  fills the order, the cap of 20 is exceeded: the order submitted on the last bar of day 0
  is filled on day 1, and 20 more entries are submitted and filled on day 1.
\<close>

theorem daily_trade_cap_counterexample:
  "max_trades_per_day (config (snd trading_init)) = 20 \<and>
   length (filter (\<lambda>t. utc_day (entry_time t) = 1)
             (trades (fst (trade_run utc_day cap_bars trading_init)))) = 21"
  by (simp add: cap_bars_def eval_nat_numeral step_defs init_defs)

text \<open>
  Claim C6. \<^verbatim>\<open>on_exit(false)\<close>, which starts the cooldown, is called only when the stop is
  hit. From a bar on which the stop is hit, no entry is made on that bar nor on the next
  \<^verbatim>\<open>cooldown_bars\<close> - 1 bars, whatever the signals.
\<close>

theorem cooldown_after_stop:
  assumes "stop_hit bar s"
    and "int (length rest) < cooldown_bars (config (snd s))"
  shows "entry_times cal ((bar, signal) # rest) s = []"
proof -
  define s2 where "s2 = risk_check bar (on_bar_open bar (fst s), snd s)"
  have c2: "cooldown_counter (snd s2) = cooldown_bars (config (snd s))"
    using assms(1) by (simp add: s2_def risk_check_keeps stop_hit_def)
  with assms(2) have pos: "int (length rest) + 1 \<le> cooldown_counter (snd s2)"
    by simp
  then have blocked: "\<not> enters cal bar signal s"
    by (simp add: enters_iff can_enter_fst s2_def)
  have "cooldown_counter (snd (trade_step cal bar signal s)) = cooldown_counter (snd s2) - 1"
    using pos by (simp add: trade_step_snd execution_logic_snd update_cooldown_keeps on_entry_keeps
        can_enter_keeps on_exit_keeps s2_def)
  with pos have "int (length rest) \<le> cooldown_counter (snd (trade_step cal bar signal s))"
    by simp
  moreover have "int (length rest) \<le> cooldown_bars (config (snd (trade_step cal bar signal s)))"
    using assms(2) by (simp add: trade_step_config)
  ultimately have "entry_times cal rest (trade_step cal bar signal s) = []"
    by (rule cooldown_aux)
  with blocked show ?thesis
    by simp
qed

lemma held_long_state:
  "held_long
     = ((ExecutionEngine_new 100000)\<lparr>cash := 80000, position := 200, position_side := 1,
           last_entry_time := 120, last_entry_price := 100\<rparr>,
        (RiskManager_new engine_config)\<lparr>rm_side := 1, rm_entry_price := 100, stop_loss := 98,
           highest_price := 100, lowest_price := 100, atr_at_entry := 1, trades_today := 1\<rparr>)"
  by (simp add: held_long_def step_defs init_defs)

lemma held_long_stop_hit: "stop_hit stop_bar held_long"
  by (simp add: held_long_state stop_hit_def stop_bar_def step_defs init_defs)

lemma held_long_reentry:
  "entry_times utc_day ((stop_bar, 1) # after_stop @ [(Bar_new 480 98 98 98 98 1000, 1)]) held_long
     = [480]"
  by (simp add: held_long_state after_stop_def stop_bar_def enters_def step_defs init_defs)

theorem cooldown_after_stop_witness:
  "stop_hit stop_bar held_long \<and>
   int (length after_stop) < cooldown_bars (config (snd held_long)) \<and>
   length after_stop = 4 \<and>
   entry_times utc_day ((stop_bar, 1) # after_stop) held_long = [] \<and>
   entry_times utc_day ((stop_bar, 1) # after_stop @ [(Bar_new 480 98 98 98 98 1000, 1)]) held_long
     = [480]"
proof -
  have a: "int (length after_stop) < cooldown_bars (config (snd held_long))"
    by (simp add: held_long_state after_stop_def init_defs)
  have b: "length after_stop = 4"
    by (simp add: after_stop_def)
  note c = cooldown_after_stop [OF held_long_stop_hit a, of utc_day 1]
  from held_long_stop_hit a b c held_long_reentry show ?thesis
    by blast
qed

text \<open>
  An exit made because the signal went to 0 calls \<^verbatim>\<open>on_exit(true)\<close> whatever its pnl: the
  trade below loses 200, and an entry is made on the very bar that fills the exit.
\<close>

theorem cooldown_after_loss_counterexample:
  "trades (fst (trade_run utc_day losing_reentry trading_init))
     = [\<lparr>entry_time = 120, exit_time = 180, entry_price = 100, exit_price = 99, side = 1,
         pnl = - 200\<rparr>] \<and>
   entry_times utc_day losing_reentry trading_init = [60, 180] \<and>
   cooldown_bars (config (snd trading_init)) = 5"
  by (simp add: losing_reentry_def enters_def step_defs init_defs)


section \<open>The ring buffer and the indicators\<close>

lemma length_contents: "length (contents b) = count b"
  by (simp add: contents_def)

lemma get_contents: "get b i = (if i < count b then Some (contents b ! i) else None)"
  by (simp add: get_def contents_def)

lemma cb_wf_new: "0 < n \<Longrightarrow> cb_wf (CircularBuffer_new n)"
  by (simp add: cb_wf_def CircularBuffer_new_def)

lemma contents_new: "contents (CircularBuffer_new n) = []"
  by (simp add: contents_def CircularBuffer_new_def)

lemma capacity_new: "capacity (CircularBuffer_new n) = n"
  by (simp add: CircularBuffer_new_def)

lemma capacity_push: "capacity (push v b) = capacity b"
  by (simp add: push_def)

lemma count_push: "count (push v b) = (if count b < capacity b then count b + 1 else count b)"
  by (simp add: push_def)

lemma cb_wf_push: "cb_wf b \<Longrightarrow> cb_wf (push v b)"
  by (simp add: cb_wf_def push_def)

lemma phys_newest:
  assumes "0 < c" "h < c"
  shows "(Suc h mod c + c - Suc 0) mod c = h"
proof (cases "Suc h < c")
  case True
  then show ?thesis using assms by simp
next
  case False
  with assms have "Suc h = c" by simp
  then show ?thesis using assms by auto
qed

lemma phys_shift:
  assumes "h < c" "Suc j < c"
  shows "(Suc h mod c + c - Suc (Suc j)) mod c = (h + c - Suc j) mod c"
proof (cases "Suc h < c")
  case True
  then show ?thesis by simp
next
  case False
  with assms have hc: "Suc h = c" by simp
  have "h + c - Suc j = c + (c - Suc (Suc j))"
    using hc assms by simp
  then have "(h + c - Suc j) mod c = (c - Suc (Suc j)) mod c"
    by (metis mod_add_self1)
  then show ?thesis using hc by simp
qed

lemma phys_not_head:
  assumes "h < c" "Suc j < c"
  shows "(h + c - Suc j) mod c \<noteq> h"
proof -
  define k where "k = c - Suc j"
  have k: "0 < k" "k < c" using assms by (simp_all add: k_def)
  have eq: "h + c - Suc j = h + k" using assms by (simp add: k_def)
  show ?thesis
  proof (cases "h + k < c")
    case True
    then show ?thesis using k unfolding eq by simp
  next
    case False
    then have "(h + k) mod c = h + k - c"
      using assms k by (simp add: mod_if)
    then show ?thesis using k False unfolding eq by simp
  qed
qed

lemma contents_push:
  assumes "cb_wf b"
  shows "contents (push v b) = take (capacity b) (v # contents b)"
proof (rule nth_equalityI)
  show len: "length (contents (push v b)) = length (take (capacity b) (v # contents b))"
    using assms by (simp add: length_contents count_push cb_wf_def)
  fix i
  assume "i < length (contents (push v b))"
  then have i: "i < count (push v b)" by (simp add: length_contents)
  have wf: "0 < capacity b" "length (buffer b) = capacity b" "head b < capacity b"
    "count b \<le> capacity b"
    using assms by (simp_all add: cb_wf_def)
  have icap: "i < capacity b"
    using i wf by (simp add: count_push split: if_splits)
  show "contents (push v b) ! i = take (capacity b) (v # contents b) ! i"
  proof (cases i)
    case 0
    have "contents (push v b) ! 0 = v"
      using i wf unfolding 0
      by (simp add: contents_def push_def phys_newest)
    then show ?thesis using wf by (simp add: 0)
  next
    case (Suc j)
    have j: "j < count b"
      using i wf by (simp add: Suc count_push split: if_splits)
    have sj: "Suc j < capacity b"
      using icap by (simp add: Suc)
    have "contents (push v b) ! Suc j
            = (buffer b)[head b := v] ! ((head b + capacity b - Suc j) mod capacity b)"
      using i wf sj unfolding Suc
      by (simp add: contents_def push_def phys_shift del: upt_Suc)
    also have "\<dots> = buffer b ! ((head b + capacity b - Suc j) mod capacity b)"
      using phys_not_head [OF wf(3) sj] by simp
    also have "\<dots> = contents b ! j"
      using j by (simp add: contents_def)
    finally show ?thesis
      using sj by (simp add: Suc)
  qed
qed

lemma sum_list_window:
  assumes "length cs = p" "0 < p"
  shows "sum_list (map f (take p (v # cs))) = sum_list (map f cs) - f (cs ! (p - 1)) + (f v :: real)"
proof -
  have ne: "cs \<noteq> []" using assms by auto
  have tk: "take p (v # cs) = v # butlast cs"
    using assms by (cases p) (simp_all add: butlast_conv_take)
  have "sum_list (map f cs) = sum_list (map f (butlast cs @ [last cs]))"
    using ne by simp
  also have "\<dots> = sum_list (map f (butlast cs)) + f (last cs)"
    by simp
  finally have "sum_list (map f cs) = sum_list (map f (butlast cs)) + f (cs ! (p - 1))"
    using ne assms by (simp add: last_conv_nth)
  then show ?thesis
    by (simp add: tk)
qed

lemma take_not_full: "length cs < p \<Longrightarrow> take p (v # cs) = v # cs"
  by simp

text \<open>The window after an update, and the sum the indicator holds of it.\<close>

lemma sma_update_wf:
  assumes "sma_wf s"
  shows "\<exists>s'. sma_update v s = Some (sma_current_value s', s') \<and> sma_wf s'
            \<and> sma_period s' = sma_period s
            \<and> contents (sma_buffer s') = take (sma_period s) (v # contents (sma_buffer s))
            \<and> sma_current_value s'
                = sum_list (contents (sma_buffer s')) / real (length (contents (sma_buffer s')))"
proof -
  define b where "b = sma_buffer s"
  define cs where "cs = contents b"
  have wf: "cb_wf b" "capacity b = sma_period s" "sma_sum s = sum_list cs"
    using assms by (simp_all add: sma_wf_def b_def cs_def)
  have cs': "contents (push v b) = take (sma_period s) (v # cs)"
    using wf by (simp add: contents_push cs_def)
  have len: "length cs = count b" by (simp add: cs_def length_contents)
  have pos: "0 < sma_period s" using wf by (simp add: cb_wf_def)
  define sum2 where "sum2 = sum_list (take (sma_period s) (v # cs))"
  have upd: "sma_update v s
               = Some (sum2 / real (count (push v b)),
                       s\<lparr>sma_sum := sum2, sma_buffer := push v b,
                         sma_current_value := sum2 / real (count (push v b))\<rparr>)"
  proof (cases "is_full b")
    case True
    then have full: "length cs = sma_period s"
      using wf len by (simp add: is_full_def)
    have "get b (sma_period s - 1) = Some (cs ! (sma_period s - 1))"
      using full pos len by (simp add: get_contents cs_def)
    moreover have "sum2 = sma_sum s - cs ! (sma_period s - 1) + v"
      using sum_list_window [OF full pos, of "\<lambda>x. x" v] wf by (simp add: sum2_def)
    ultimately show ?thesis
      using True by (simp add: sma_update_def b_def [symmetric] size_cb_def Let_def)
  next
    case False
    then have "length cs < sma_period s"
      using wf len by (simp add: is_full_def cb_wf_def)
    then have "sum2 = sma_sum s + v"
      using wf by (simp add: sum2_def)
    then show ?thesis
      using False by (simp add: sma_update_def b_def [symmetric] size_cb_def Let_def)
  qed
  let ?s' = "s\<lparr>sma_sum := sum2, sma_buffer := push v b,
               sma_current_value := sum2 / real (count (push v b))\<rparr>"
  have "sma_wf ?s'"
    using wf by (simp add: sma_wf_def cb_wf_push capacity_push cs' sum2_def)
  moreover have "sma_current_value ?s'
                = sum_list (contents (sma_buffer ?s')) / real (length (contents (sma_buffer ?s')))"
    by (simp add: cs' sum2_def length_contents [symmetric] del: length_take)
  ultimately show ?thesis
    using upd cs' by (intro exI [of _ ?s']) (simp add: b_def cs_def)
qed

lemma rs_update_wf:
  assumes "rs_wf s"
  shows "\<exists>s'. rs_update v s = Some (rs_mean s', s') \<and> rs_wf s'
            \<and> rs_period s' = rs_period s
            \<and> contents (rs_buffer s') = take (rs_period s) (v # contents (rs_buffer s))
            \<and> rs_std_dev s' = window_std (contents (rs_buffer s'))"
proof -
  define b where "b = rs_buffer s"
  define cs where "cs = contents b"
  define p where "p = rs_period s"
  have wf: "cb_wf b" "capacity b = p" "rs_sum s = sum_list cs"
    "rs_sum_sq s = sum_list (map (\<lambda>x. x * x) cs)"
    using assms by (simp_all add: rs_wf_def b_def cs_def p_def)
  have cs': "contents (push v b) = take p (v # cs)"
    using wf by (simp add: contents_push cs_def)
  have len: "length cs = count b" by (simp add: cs_def length_contents)
  have pos: "0 < p" using wf by (simp add: cb_wf_def)
  define sum2 where "sum2 = sum_list (take p (v # cs))"
  define sq2 where "sq2 = sum_list (map (\<lambda>x. x * x) (take p (v # cs)))"
  define n where "n = real (count (push v b))"
  define sd where "sd = sqrt (if sq2 / n - sum2 / n * (sum2 / n) < 0 then 0
                              else sq2 / n - sum2 / n * (sum2 / n))"
  define s' where "s' = s\<lparr>rs_buffer := push v b, rs_sum := sum2, rs_sum_sq := sq2,
                          rs_mean := sum2 / n, rs_std_dev := sd,
                          rs_zscore := (if sd > 1 / 10 ^ 9 then (v - sum2 / n) / sd else 0)\<rparr>"
  have upd: "rs_update v s = Some (sum2 / n, s')"
  proof (cases "is_full b")
    case True
    then have full: "length cs = p"
      using wf len by (simp add: is_full_def)
    have "get b (p - 1) = Some (cs ! (p - 1))"
      using full pos len by (simp add: get_contents cs_def)
    moreover have "sum2 = rs_sum s - cs ! (p - 1) + v"
      using sum_list_window [OF full pos, of "\<lambda>x. x" v] wf by (simp add: sum2_def)
    moreover have "sq2 = rs_sum_sq s - cs ! (p - 1) * cs ! (p - 1) + v * v"
      using sum_list_window [OF full pos, of "\<lambda>x. x * x" v] wf by (simp add: sq2_def)
    ultimately show ?thesis
      using True
      by (simp add: rs_update_def b_def [symmetric] p_def [symmetric] size_cb_def Let_def
          s'_def sd_def n_def)
  next
    case False
    then have "length cs < p"
      using wf len by (simp add: is_full_def cb_wf_def)
    then have "sum2 = rs_sum s + v" "sq2 = rs_sum_sq s + v * v"
      using wf by (simp_all add: sum2_def sq2_def)
    then show ?thesis
      using False
      by (simp add: rs_update_def b_def [symmetric] p_def [symmetric] size_cb_def Let_def
          s'_def sd_def n_def)
  qed
  have "rs_wf s'"
    using wf by (simp add: rs_wf_def s'_def cb_wf_push capacity_push cs' sum2_def sq2_def p_def)
  moreover have "rs_std_dev s' = window_std (contents (rs_buffer s'))"
    by (simp add: s'_def sd_def window_std_def cs' sum2_def sq2_def n_def Let_def
        length_contents [symmetric] del: length_take)
  moreover have "rs_mean s' = sum2 / n" "rs_period s' = rs_period s"
    "contents (rs_buffer s') = take (rs_period s) (v # contents (rs_buffer s))"
    using cs' by (simp_all add: s'_def p_def cs_def b_def)
  ultimately show ?thesis
    using upd by (intro exI [of _ s']) simp
qed

lemma roc_update_wf:
  assumes "roc_wf s"
  shows "\<exists>r s'. roc_update v s = Some (r, s') \<and> roc_wf s'"
proof -
  define b where "b = push v (roc_buffer s)"
  have wf: "cb_wf b" "capacity b = roc_period s + 1"
    using assms by (simp_all add: roc_wf_def b_def cb_wf_push capacity_push)
  show ?thesis
  proof (cases "size_cb b \<le> roc_period s")
    case True
    then show ?thesis
      using wf by (simp add: roc_update_def b_def [symmetric] Let_def roc_wf_def)
  next
    case False
    then have "roc_period s < count b" by (simp add: size_cb_def)
    then have "get b (roc_period s) = Some (contents b ! roc_period s)"
      by (simp add: get_contents)
    then show ?thesis
      using False wf by (simp add: roc_update_def b_def [symmetric] Let_def roc_wf_def)
  qed
qed

lemma sum_sq_diff_loop_total:
  "\<forall>i\<in>set idx. i < count b \<Longrightarrow> \<exists>r. sum_sq_diff_loop b basis idx acc = Some r"
  by (induction idx arbitrary: acc) (simp_all add: get_contents Let_def)

lemma bb_update_wf:
  assumes "bb_wf s"
  shows "\<exists>r s'. bb_update v s = Some (r, s') \<and> bb_wf s'"
proof -
  obtain sm where sm: "sma_update v (bb_sma s) = Some (sma_current_value sm, sm)" "sma_wf sm"
    using sma_update_wf [of "bb_sma s" v] assms by (auto simp: bb_wf_def)
  define b where "b = push v (bb_buffer s)"
  have wf: "cb_wf b" "capacity b = bb_period s"
    using assms by (simp_all add: bb_wf_def b_def cb_wf_push capacity_push)
  obtain q where q: "sum_sq_diff_loop b (sma_current_value sm) [0..<size_cb b] 0 = Some q"
    using sum_sq_diff_loop_total [of "[0..<size_cb b]" b "sma_current_value sm" 0]
    by (auto simp: size_cb_def)
  show ?thesis
    using sm q wf
    by (simp add: bb_update_def b_def [symmetric] Let_def bb_wf_def)
qed

lemma sma_wf_new: "0 < p \<Longrightarrow> sma_wf (SimpleMovingAverage_new p)"
  by (simp add: sma_wf_def SimpleMovingAverage_new_def cb_wf_new contents_new capacity_new)

lemma rs_wf_new: "0 < p \<Longrightarrow> rs_wf (RollingStats_new p)"
  by (simp add: rs_wf_def RollingStats_new_def cb_wf_new contents_new capacity_new)

lemma roc_wf_new: "roc_wf (RateOfChange_new p)"
  by (simp add: roc_wf_def RateOfChange_new_def cb_wf_new capacity_new)

lemma bb_wf_new: "0 < p \<Longrightarrow> bb_wf (BollingerBands_new p m)"
  by (simp add: bb_wf_def BollingerBands_new_def sma_wf_new cb_wf_new capacity_new)

lemma regime_wf_new: "regime_wf RegimeStrategy_new"
  by (simp add: regime_wf_def RegimeStrategy_new_def rs_wf_new sma_wf_new)

lemma momentum_wf_new: "momentum_wf MomentumStrategy_new"
  by (simp add: momentum_wf_def MomentumStrategy_new_def rs_wf_new sma_wf_new roc_wf_new)

lemma mean_reversion_wf_new: "mean_reversion_wf MeanReversionStrategy_new"
  by (simp add: mean_reversion_wf_def MeanReversionStrategy_new_def rs_wf_new bb_wf_new)

lemma regime_on_bar_skip:
  assumes "regime_wf s" "\<not> reg_last_close s > 0"
  shows "\<exists>s'. regime_on_bar bar s = Some s' \<and> regime_wf s'
           \<and> reg_vol_short s' = reg_vol_short s \<and> reg_vol_long s' = reg_vol_long s
           \<and> reg_last_close s' = close bar
           \<and> sma_period (reg_sma_trend s') = sma_period (reg_sma_trend s)
           \<and> contents (sma_buffer (reg_sma_trend s'))
               = take (sma_period (reg_sma_trend s)) (close bar # contents (sma_buffer (reg_sma_trend s)))
           \<and> sma_current_value (reg_sma_trend s')
               = sum_list (contents (sma_buffer (reg_sma_trend s')))
                 / real (length (contents (sma_buffer (reg_sma_trend s'))))
           \<and> reg_current_regime s'
               = (if \<not> rs_is_ready (reg_vol_long s') \<or> \<not> sma_is_ready (reg_sma_trend s')
                  then reg_current_regime s
                  else classify (rs_std_dev (reg_vol_short s')) (rs_std_dev (reg_vol_long s'))
                         (close bar) (sma_current_value (reg_sma_trend s')))"
proof -
  obtain sm where sm: "sma_update (close bar) (reg_sma_trend s) = Some (sma_current_value sm, sm)"
    "sma_wf sm" "sma_period sm = sma_period (reg_sma_trend s)"
    "contents (sma_buffer sm)
       = take (sma_period (reg_sma_trend s)) (close bar # contents (sma_buffer (reg_sma_trend s)))"
    "sma_current_value sm
       = sum_list (contents (sma_buffer sm)) / real (length (contents (sma_buffer sm)))"
    using sma_update_wf [of "reg_sma_trend s" "close bar"] assms(1) by (auto simp: regime_wf_def)
  define s1 where "s1 = s\<lparr>reg_vol_short := reg_vol_short s, reg_vol_long := reg_vol_long s,
                          reg_last_close := close bar, reg_sma_trend := sm\<rparr>"
  define s' where "s' = (if \<not> rs_is_ready (reg_vol_long s) \<or> \<not> sma_is_ready sm then s1
                         else s1\<lparr>reg_current_regime :=
                                   classify (rs_std_dev (reg_vol_short s)) (rs_std_dev (reg_vol_long s))
                                     (close bar) (sma_current_value sm)\<rparr>)"
  have eq: "regime_on_bar bar s = Some s'"
    using assms(2) sm(1)
    by (simp add: regime_on_bar_def classify_def sma_value_def Let_def s'_def s1_def)
  have proj: "reg_vol_short s' = reg_vol_short s" "reg_vol_long s' = reg_vol_long s"
    "reg_sma_trend s' = sm" "reg_last_close s' = close bar"
    by (simp_all add: s'_def s1_def)
  have rg: "reg_current_regime s'
               = (if \<not> rs_is_ready (reg_vol_long s') \<or> \<not> sma_is_ready (reg_sma_trend s')
                  then reg_current_regime s
                  else classify (rs_std_dev (reg_vol_short s')) (rs_std_dev (reg_vol_long s'))
                         (close bar) (sma_current_value (reg_sma_trend s')))"
    unfolding proj by (simp add: s'_def s1_def)
  have wf: "regime_wf s'"
    using assms(1) sm(2) by (simp add: regime_wf_def proj)
  show ?thesis
    using eq wf rg sm(3,4,5) by (intro exI [of _ s']) (simp add: proj)
qed

lemma regime_on_bar_feed:
  assumes "regime_wf s" "reg_last_close s > 0"
  shows "\<exists>s'. regime_on_bar bar s = Some s' \<and> regime_wf s'
           \<and> reg_last_close s' = close bar
           \<and> rs_period (reg_vol_short s') = rs_period (reg_vol_short s)
           \<and> rs_period (reg_vol_long s') = rs_period (reg_vol_long s)
           \<and> contents (rs_buffer (reg_vol_short s'))
               = take (rs_period (reg_vol_short s))
                   (ln (close bar / reg_last_close s) # contents (rs_buffer (reg_vol_short s)))
           \<and> contents (rs_buffer (reg_vol_long s'))
               = take (rs_period (reg_vol_long s))
                   (ln (close bar / reg_last_close s) # contents (rs_buffer (reg_vol_long s)))
           \<and> rs_std_dev (reg_vol_short s') = window_std (contents (rs_buffer (reg_vol_short s')))
           \<and> rs_std_dev (reg_vol_long s') = window_std (contents (rs_buffer (reg_vol_long s')))
           \<and> sma_period (reg_sma_trend s') = sma_period (reg_sma_trend s)
           \<and> contents (sma_buffer (reg_sma_trend s'))
               = take (sma_period (reg_sma_trend s)) (close bar # contents (sma_buffer (reg_sma_trend s)))
           \<and> sma_current_value (reg_sma_trend s')
               = sum_list (contents (sma_buffer (reg_sma_trend s')))
                 / real (length (contents (sma_buffer (reg_sma_trend s'))))
           \<and> reg_current_regime s'
               = (if \<not> rs_is_ready (reg_vol_long s') \<or> \<not> sma_is_ready (reg_sma_trend s')
                  then reg_current_regime s
                  else classify (rs_std_dev (reg_vol_short s')) (rs_std_dev (reg_vol_long s'))
                         (close bar) (sma_current_value (reg_sma_trend s')))"
proof -
  define lr where "lr = ln (close bar / reg_last_close s)"
  obtain sm where sm: "sma_update (close bar) (reg_sma_trend s) = Some (sma_current_value sm, sm)"
    "sma_wf sm" "sma_period sm = sma_period (reg_sma_trend s)"
    "contents (sma_buffer sm)
       = take (sma_period (reg_sma_trend s)) (close bar # contents (sma_buffer (reg_sma_trend s)))"
    "sma_current_value sm
       = sum_list (contents (sma_buffer sm)) / real (length (contents (sma_buffer sm)))"
    using sma_update_wf [of "reg_sma_trend s" "close bar"] assms(1) by (auto simp: regime_wf_def)
  obtain vs where vs: "rs_update lr (reg_vol_short s) = Some (rs_mean vs, vs)" "rs_wf vs"
    "rs_period vs = rs_period (reg_vol_short s)"
    "contents (rs_buffer vs) = take (rs_period (reg_vol_short s)) (lr # contents (rs_buffer (reg_vol_short s)))"
    "rs_std_dev vs = window_std (contents (rs_buffer vs))"
    using rs_update_wf [of "reg_vol_short s" lr] assms(1) by (auto simp: regime_wf_def)
  obtain vl where vl: "rs_update lr (reg_vol_long s) = Some (rs_mean vl, vl)" "rs_wf vl"
    "rs_period vl = rs_period (reg_vol_long s)"
    "contents (rs_buffer vl) = take (rs_period (reg_vol_long s)) (lr # contents (rs_buffer (reg_vol_long s)))"
    "rs_std_dev vl = window_std (contents (rs_buffer vl))"
    using rs_update_wf [of "reg_vol_long s" lr] assms(1) by (auto simp: regime_wf_def)
  define s1 where "s1 = s\<lparr>reg_vol_short := vs, reg_vol_long := vl,
                          reg_last_close := close bar, reg_sma_trend := sm\<rparr>"
  define s' where "s' = (if \<not> rs_is_ready vl \<or> \<not> sma_is_ready sm then s1
                         else s1\<lparr>reg_current_regime :=
                                   classify (rs_std_dev vs) (rs_std_dev vl)
                                     (close bar) (sma_current_value sm)\<rparr>)"
  have eq: "regime_on_bar bar s = Some s'"
    using assms(2) sm(1) vs(1) vl(1)
    by (simp add: regime_on_bar_def classify_def sma_value_def Let_def s'_def s1_def
        lr_def [symmetric])
  have proj: "reg_vol_short s' = vs" "reg_vol_long s' = vl"
    "reg_sma_trend s' = sm" "reg_last_close s' = close bar"
    by (simp_all add: s'_def s1_def)
  have rg: "reg_current_regime s'
               = (if \<not> rs_is_ready (reg_vol_long s') \<or> \<not> sma_is_ready (reg_sma_trend s')
                  then reg_current_regime s
                  else classify (rs_std_dev (reg_vol_short s')) (rs_std_dev (reg_vol_long s'))
                         (close bar) (sma_current_value (reg_sma_trend s')))"
    unfolding proj by (simp add: s'_def s1_def)
  have wf: "regime_wf s'"
    using sm(2) vs(2) vl(2) by (simp add: regime_wf_def proj)
  show ?thesis
    using eq wf rg sm(3,4,5) vs(3,4,5) vl(3,4,5)
    by (intro exI [of _ s']) (simp add: proj lr_def)
qed

lemma regime_on_bar_wf:
  assumes "regime_wf s"
  shows "\<exists>s'. regime_on_bar bar s = Some s' \<and> regime_wf s'"
proof (cases "reg_last_close s > 0")
  case True
  then show ?thesis using regime_on_bar_feed [OF assms, of bar] by blast
next
  case False
  then show ?thesis using regime_on_bar_skip [OF assms, of bar] by blast
qed

lemma momentum_on_bar_wf:
  assumes "momentum_wf s"
  shows "\<exists>s'. momentum_on_bar bar s = Some s' \<and> momentum_wf s'"
proof -
  obtain mom roc where roc: "roc_update (close bar) (mom_roc s) = Some (mom, roc)" "roc_wf roc"
    using roc_update_wf [of "mom_roc s" "close bar"] assms by (auto simp: momentum_wf_def)
  obtain rz where rz: "rs_update mom (mom_roc_zscore s) = Some (rs_mean rz, rz)" "rs_wf rz"
    using rs_update_wf [of "mom_roc_zscore s" mom] assms by (auto simp: momentum_wf_def)
  obtain va where va: "sma_update (volume bar) (mom_vol_avg s) = Some (sma_current_value va, va)"
    "sma_wf va"
    using sma_update_wf [of "mom_vol_avg s" "volume bar"] assms by (auto simp: momentum_wf_def)
  show ?thesis
    using roc rz va
    by (simp add: momentum_on_bar_def momentum_wf_def Let_def split: prod.splits)
qed

lemma mean_reversion_on_bar_wf:
  assumes "mean_reversion_wf s"
  shows "\<exists>s'. mean_reversion_on_bar bar s = Some s' \<and> mean_reversion_wf s'
            \<and> (\<not> mr_last_close s > 0 \<longrightarrow> mr_vol_20 s' = mr_vol_20 s \<and> mr_vol_60 s' = mr_vol_60 s)"
proof -
  define lr where "lr = ln (close bar / mr_last_close s)"
  obtain r bb where bb: "bb_update (close bar) (mr_bb s) = Some (r, bb)" "bb_wf bb"
    using bb_update_wf [of "mr_bb s" "close bar"] assms by (auto simp: mean_reversion_wf_def)
  obtain v20 where v20: "rs_update lr (mr_vol_20 s) = Some (rs_mean v20, v20)" "rs_wf v20"
    using rs_update_wf [of "mr_vol_20 s" lr] assms by (auto simp: mean_reversion_wf_def)
  obtain v60 where v60: "rs_update lr (mr_vol_60 s) = Some (rs_mean v60, v60)" "rs_wf v60"
    using rs_update_wf [of "mr_vol_60 s" lr] assms by (auto simp: mean_reversion_wf_def)
  show ?thesis
    using bb v20 v60 assms
    by (simp add: mean_reversion_on_bar_def mean_reversion_wf_def Let_def lr_def [symmetric]
        split: prod.splits)
qed

lemma trade_step_idle:
  assumes "pending_order_side e = 0" "position e = 0"
  shows "trade_step cal bar 0 (e, r) = (e, update_cooldown r)"
  using assms
  by (simp add: trade_step_def on_bar_open_def risk_check_def execution_logic_def is_invested_def)

lemma engine_step_eq:
  assumes "regime_on_bar bar (regime_strategy st) = Some rg"
    and "momentum_on_bar bar (momentum_strategy st) = Some mo"
    and "mean_reversion_on_bar bar (mean_reversion_strategy st) = Some mr"
  shows "engine_step cal bar st
           = Some \<lparr>risk_manager =
                     snd (trade_step cal bar (dispatch (regime rg) mo mr)
                            (execution_engine st, risk_manager st)),
                   execution_engine =
                     fst (trade_step cal bar (dispatch (regime rg) mo mr)
                            (execution_engine st, risk_manager st)),
                   regime_strategy = rg, momentum_strategy = mo, mean_reversion_strategy = mr\<rparr>"
  using assms
  by (simp add: engine_step_def trade_step_def Let_def split: prod.splits)

lemma dispatch_mute: "dispatch ''UNDEFINED'' mo mr = 0" "dispatch ''HV_RANGE'' mo mr = 0"
  by (simp_all add: dispatch_def)

lemma engine_step_wf:
  assumes "engine_wf st"
  shows "\<exists>rg mo mr. regime_on_bar bar (regime_strategy st) = Some rg \<and> regime_wf rg
           \<and> momentum_on_bar bar (momentum_strategy st) = Some mo \<and> momentum_wf mo
           \<and> mean_reversion_on_bar bar (mean_reversion_strategy st) = Some mr \<and> mean_reversion_wf mr"
  using assms regime_on_bar_wf [of "regime_strategy st" bar]
    momentum_on_bar_wf [of "momentum_strategy st" bar]
    mean_reversion_on_bar_wf [of "mean_reversion_strategy st" bar]
  by (auto simp: engine_wf_def)

lemma engine_step_total:
  assumes "engine_wf st"
  shows "\<exists>st'. engine_step cal bar st = Some st' \<and> engine_wf st'"
proof -
  obtain rg mo mr where r: "regime_on_bar bar (regime_strategy st) = Some rg" "regime_wf rg"
    "momentum_on_bar bar (momentum_strategy st) = Some mo" "momentum_wf mo"
    "mean_reversion_on_bar bar (mean_reversion_strategy st) = Some mr" "mean_reversion_wf mr"
    using engine_step_wf [OF assms, of bar] by blast
  show ?thesis
    using r by (simp add: engine_step_eq [OF r(1) r(3) r(5)] engine_wf_def)
qed

lemma run_loop_total:
  "engine_wf st \<Longrightarrow> \<exists>st'. run_loop cal bars st = Some st' \<and> engine_wf st'"
proof (induction bars arbitrary: st)
  case Nil
  then show ?case by simp
next
  case (Cons bar bars)
  obtain st1 where st1: "engine_step cal bar st = Some st1" "engine_wf st1"
    using engine_step_total [OF Cons.prems, of cal bar] by blast
  then show ?case
    using Cons.IH [of st1] by simp
qed

lemma engine_wf_reset:
  "engine_wf (eng\<lparr>regime_strategy := RegimeStrategy_new, momentum_strategy := MomentumStrategy_new,
                  mean_reversion_strategy := MeanReversionStrategy_new\<rparr>)"
  by (simp add: engine_wf_def regime_wf_new momentum_wf_new mean_reversion_wf_new)

lemma run_total: "\<exists>st. run cal bars eng = Some st"
  using run_loop_total [OF engine_wf_reset, of cal bars eng] by (auto simp: run_def)

lemma run_Engine_new: "run cal bars Engine_new = run_loop cal bars Engine_new"
  by (simp add: run_def Engine_new_def)

text \<open>Every run of the engine is a run of the trading part on some signal sequence.\<close>

lemma run_loop_trade_run:
  "run_loop cal bars st = Some st' \<Longrightarrow>
   \<exists>signals. length signals = length bars \<and>
     (execution_engine st', risk_manager st')
       = trade_run cal (zip bars signals) (execution_engine st, risk_manager st)"
proof (induction bars arbitrary: st)
  case Nil
  then show ?case by simp
next
  case (Cons bar bars)
  from Cons.prems obtain st1 where st1: "engine_step cal bar st = Some st1"
    and rest: "run_loop cal bars st1 = Some st'"
    by (auto split: option.splits)
  from st1 obtain rg mo mr where r: "regime_on_bar bar (regime_strategy st) = Some rg"
    "momentum_on_bar bar (momentum_strategy st) = Some mo"
    "mean_reversion_on_bar bar (mean_reversion_strategy st) = Some mr"
    by (auto simp: engine_step_def Let_def split: bind_splits prod.splits)
  have "(execution_engine st1, risk_manager st1)
       = trade_step cal bar (dispatch (regime rg) mo mr) (execution_engine st, risk_manager st)"
    using st1 unfolding engine_step_eq [OF r] by auto
  moreover obtain signals where "length signals = length bars"
    "(execution_engine st', risk_manager st')
       = trade_run cal (zip bars signals) (execution_engine st1, risk_manager st1)"
    using Cons.IH [OF rest] by blast
  ultimately show ?case
    by (intro exI [of _ "dispatch (regime rg) mo mr # signals"]) simp
qed

text \<open>
  In particular the ledger identity of the trading part holds at the end of every run of
  the engine, whatever signals the strategies produced.
\<close>

lemma run_equity_identity:
  assumes "run cal bars Engine_new = Some st"
    and "\<forall>b \<in> set bars. close b \<noteq> 0"
  shows "get_equity (execution_engine st) p
           = 100000 + sum_list (map pnl (trades (execution_engine st)))
             + position (execution_engine st) * (p - last_entry_price (execution_engine st))"
proof -
  from assms(1) have "run_loop cal bars Engine_new = Some st"
    by (simp add: run_Engine_new)
  then obtain signals where
    eq: "(execution_engine st, risk_manager st) = trade_run cal (zip bars signals) trading_init"
    using run_loop_trade_run [of cal bars Engine_new st]
    by (auto simp: Engine_new_def trading_init_def)
  have e: "execution_engine st = fst (trade_run cal (zip bars signals) trading_init)"
    using eq by (metis fst_conv)
  have "exec_inv (execution_engine st)"
    unfolding e by (intro exec_inv_trade_run) (simp add: trading_init_def exec_inv_new)
  moreover have "capital (execution_engine st) = 100000"
    unfolding e by (simp add: capital_trade_run trading_init_def ExecutionEngine_new_def)
  ultimately show ?thesis
    by (simp add: exec_inv_def get_equity_def algebra_simps)
qed


section \<open>The strategy layer in a run\<close>

lemma regime_skips:
  assumes "reg_last_close s \<le> 0" "regime_on_bar bar s = Some s'"
  shows "reg_vol_short s' = reg_vol_short s \<and> reg_vol_long s' = reg_vol_long s
         \<and> reg_last_close s' = close bar"
  using assms
  by (auto simp: regime_on_bar_def Let_def split: bind_splits if_splits prod.splits)

lemma mean_reversion_skips:
  assumes "mr_last_close s \<le> 0" "mean_reversion_on_bar bar s = Some s'"
  shows "mr_vol_20 s' = mr_vol_20 s \<and> mr_vol_60 s' = mr_vol_60 s \<and> mr_last_close s' = close bar"
  using assms
  by (auto simp: mean_reversion_on_bar_def Let_def split: bind_splits if_splits prod.splits)

text \<open>
  Claim C9. When the previous close is zero or negative, the regime detector and the
  mean-reversion strategy skip the update of their volatility statistics for that bar:
  the rolling-stats objects are exactly as before, no value is fed to their windows.
  This is also the case of the first bar, where the previous close is the initial 0.0.
\<close>

theorem degenerate_log_return_skipped:
  assumes "reg_last_close rg \<le> 0"
    and "mr_last_close mr \<le> 0"
    and "regime_on_bar bar rg = Some rg'"
    and "mean_reversion_on_bar bar mr = Some mr'"
  shows "reg_vol_short rg' = reg_vol_short rg \<and> reg_vol_long rg' = reg_vol_long rg \<and>
         mr_vol_20 mr' = mr_vol_20 mr \<and> mr_vol_60 mr' = mr_vol_60 mr"
  using regime_skips [OF assms(1,3)] mean_reversion_skips [OF assms(2,4)] by simp

theorem degenerate_log_return_skipped_witness:
  "reg_last_close RegimeStrategy_new \<le> 0 \<and>
   mr_last_close MeanReversionStrategy_new \<le> 0 \<and>
   (\<exists>rg' mr'.
      regime_on_bar (Bar_new 60 100 100 100 100 1000) RegimeStrategy_new = Some rg' \<and>
      mean_reversion_on_bar (Bar_new 60 100 100 100 100 1000) MeanReversionStrategy_new = Some mr' \<and>
      reg_vol_short rg' = RollingStats_new 50 \<and> reg_vol_long rg' = RollingStats_new 200 \<and>
      mr_vol_20 mr' = RollingStats_new 20 \<and> mr_vol_60 mr' = RollingStats_new 60)"
proof -
  have a: "reg_last_close RegimeStrategy_new \<le> 0"
    by (simp add: RegimeStrategy_new_def)
  have b: "mr_last_close MeanReversionStrategy_new \<le> 0"
    by (simp add: MeanReversionStrategy_new_def)
  obtain rg' where rg: "regime_on_bar (Bar_new 60 100 100 100 100 1000) RegimeStrategy_new = Some rg'"
    using regime_on_bar_wf [OF regime_wf_new] by blast
  obtain mr' where mr:
    "mean_reversion_on_bar (Bar_new 60 100 100 100 100 1000) MeanReversionStrategy_new = Some mr'"
    using mean_reversion_on_bar_wf [OF mean_reversion_wf_new] by blast
  have "reg_vol_short rg' = RollingStats_new 50 \<and> reg_vol_long rg' = RollingStats_new 200 \<and>
        mr_vol_20 mr' = RollingStats_new 20 \<and> mr_vol_60 mr' = RollingStats_new 60"
    using degenerate_log_return_skipped [OF a b rg mr]
    by (simp add: RegimeStrategy_new_def MeanReversionStrategy_new_def)
  with a b rg mr show ?thesis by blast
qed

text \<open>
  Two bars, the first with close 0: on the second bar the previous close is zero. Had a
  zero return been fed on it, the window of the short volatility statistics would hold one
  value; it holds none, in the regime detector and in the mean-reversion strategy.
\<close>

lemma regime_two_skips:
  "Option.bind (regime_on_bar (Bar_new 60 1 1 0 0 1000) RegimeStrategy_new)
     (regime_on_bar (Bar_new 120 100 100 100 100 1000)) \<bind> (\<lambda>s. Some (reg_vol_short s))
   = Some (RollingStats_new 50)"
proof -
  obtain s1 where s1: "regime_on_bar (Bar_new 60 1 1 0 0 1000) RegimeStrategy_new = Some s1"
    "regime_wf s1"
    using regime_on_bar_wf [OF regime_wf_new] by blast
  have f1: "reg_vol_short s1 = RollingStats_new 50" "reg_last_close s1 \<le> 0"
    using regime_skips [OF _ s1(1)] by (simp_all add: RegimeStrategy_new_def Bar_new_def)
  obtain s2 where s2: "regime_on_bar (Bar_new 120 100 100 100 100 1000) s1 = Some s2"
    using regime_on_bar_wf [OF s1(2)] by blast
  have "reg_vol_short s2 = RollingStats_new 50"
    using regime_skips [OF f1(2) s2] f1(1) by simp
  then show ?thesis
    by (simp add: s1 s2)
qed

lemma mean_reversion_two_skips:
  "Option.bind (mean_reversion_on_bar (Bar_new 60 1 1 0 0 1000) MeanReversionStrategy_new)
     (mean_reversion_on_bar (Bar_new 120 100 100 100 100 1000)) \<bind> (\<lambda>s. Some (mr_vol_20 s))
   = Some (RollingStats_new 20)"
proof -
  obtain s1 where s1:
    "mean_reversion_on_bar (Bar_new 60 1 1 0 0 1000) MeanReversionStrategy_new = Some s1"
    "mean_reversion_wf s1"
    using mean_reversion_on_bar_wf [OF mean_reversion_wf_new] by blast
  have f1: "mr_vol_20 s1 = RollingStats_new 20" "mr_last_close s1 \<le> 0"
    using mean_reversion_skips [OF _ s1(1)]
    by (simp_all add: MeanReversionStrategy_new_def Bar_new_def)
  obtain s2 where s2: "mean_reversion_on_bar (Bar_new 120 100 100 100 100 1000) s1 = Some s2"
    using mean_reversion_on_bar_wf [OF s1(2)] by blast
  have "mr_vol_20 s2 = RollingStats_new 20"
    using mean_reversion_skips [OF f1(2) s2] f1(1) by simp
  then show ?thesis
    by (simp add: s1 s2)
qed

lemma feed_zero:
  "0 < p \<Longrightarrow>
   map_option (\<lambda>r. count (rs_buffer (snd r))) (rs_update 0 (RollingStats_new p)) = Some 1"
  by (simp add: rs_update_def RollingStats_new_def CircularBuffer_new_def is_full_def get_def
      push_def size_cb_def Let_def)

theorem zero_return_fed_counterexample:
  "Option.bind (regime_on_bar (Bar_new 60 1 1 0 0 1000) RegimeStrategy_new)
     (regime_on_bar (Bar_new 120 100 100 100 100 1000)) \<bind> (\<lambda>s. Some (reg_vol_short s))
   = Some (RollingStats_new 50) \<and>
   Option.bind (mean_reversion_on_bar (Bar_new 60 1 1 0 0 1000) MeanReversionStrategy_new)
     (mean_reversion_on_bar (Bar_new 120 100 100 100 100 1000)) \<bind> (\<lambda>s. Some (mr_vol_20 s))
   = Some (RollingStats_new 20) \<and>
   count (rs_buffer (RollingStats_new 50)) = 0 \<and>
   count (rs_buffer (RollingStats_new 20)) = 0 \<and>
   map_option (\<lambda>r. count (rs_buffer (snd r))) (rs_update 0 (RollingStats_new 50)) = Some 1 \<and>
   map_option (\<lambda>r. count (rs_buffer (snd r))) (rs_update 0 (RollingStats_new 20)) = Some 1"
  using regime_two_skips mean_reversion_two_skips
  by (simp add: feed_zero) (simp add: RollingStats_new_def CircularBuffer_new_def)

lemma ready_iff_count:
  assumes "regime_wf rg"
  shows "rs_is_ready (reg_vol_long rg)
           \<longleftrightarrow> count (rs_buffer (reg_vol_long rg)) = rs_period (reg_vol_long rg)"
    and "sma_is_ready (reg_sma_trend rg)
           \<longleftrightarrow> count (sma_buffer (reg_sma_trend rg)) = sma_period (reg_sma_trend rg)"
  using assms
  by (simp_all add: regime_wf_def rs_wf_def sma_wf_def rs_is_ready_def sma_is_ready_def is_full_def)

lemma regime_on_bar_counts:
  assumes "regime_wf rg" "regime_on_bar bar rg = Some rg'"
  shows "regime_wf rg'"
    and "reg_last_close rg' = close bar"
    and "rs_period (reg_vol_long rg') = rs_period (reg_vol_long rg)"
    and "sma_period (reg_sma_trend rg') = sma_period (reg_sma_trend rg)"
    and "count (sma_buffer (reg_sma_trend rg'))
           = min (sma_period (reg_sma_trend rg)) (Suc (count (sma_buffer (reg_sma_trend rg))))"
    and "count (rs_buffer (reg_vol_long rg'))
           = (if reg_last_close rg > 0
              then min (rs_period (reg_vol_long rg)) (Suc (count (rs_buffer (reg_vol_long rg))))
              else count (rs_buffer (reg_vol_long rg)))"
    and "\<not> (rs_is_ready (reg_vol_long rg') \<and> sma_is_ready (reg_sma_trend rg'))
           \<Longrightarrow> reg_current_regime rg' = reg_current_regime rg"
proof -
  have all: "regime_wf rg' \<and> reg_last_close rg' = close bar
    \<and> rs_period (reg_vol_long rg') = rs_period (reg_vol_long rg)
    \<and> sma_period (reg_sma_trend rg') = sma_period (reg_sma_trend rg)
    \<and> count (sma_buffer (reg_sma_trend rg'))
           = min (sma_period (reg_sma_trend rg)) (Suc (count (sma_buffer (reg_sma_trend rg))))
    \<and> count (rs_buffer (reg_vol_long rg'))
           = (if reg_last_close rg > 0
              then min (rs_period (reg_vol_long rg)) (Suc (count (rs_buffer (reg_vol_long rg))))
              else count (rs_buffer (reg_vol_long rg)))
    \<and> (\<not> (rs_is_ready (reg_vol_long rg') \<and> sma_is_ready (reg_sma_trend rg'))
           \<longrightarrow> reg_current_regime rg' = reg_current_regime rg)"
  proof (cases "reg_last_close rg > 0")
    case True
    from regime_on_bar_feed [OF assms(1) True, of bar] assms(2) True
    show ?thesis
      by (auto simp: length_contents [symmetric] min.commute simp del: length_take)
        (simp_all add: length_contents min.commute)
  next
    case False
    from regime_on_bar_skip [OF assms(1) False, of bar] assms(2) False
    show ?thesis
      by (auto simp: length_contents [symmetric] min.commute simp del: length_take)
        (simp_all add: length_contents min.commute)
  qed
  show "regime_wf rg'" "reg_last_close rg' = close bar"
    "rs_period (reg_vol_long rg') = rs_period (reg_vol_long rg)"
    "sma_period (reg_sma_trend rg') = sma_period (reg_sma_trend rg)"
    "count (sma_buffer (reg_sma_trend rg'))
           = min (sma_period (reg_sma_trend rg)) (Suc (count (sma_buffer (reg_sma_trend rg))))"
    "count (rs_buffer (reg_vol_long rg'))
           = (if reg_last_close rg > 0
              then min (rs_period (reg_vol_long rg)) (Suc (count (rs_buffer (reg_vol_long rg))))
              else count (rs_buffer (reg_vol_long rg)))"
    "\<not> (rs_is_ready (reg_vol_long rg') \<and> sma_is_ready (reg_sma_trend rg'))
           \<Longrightarrow> reg_current_regime rg' = reg_current_regime rg"
    using all by blast+
qed

lemma warm_inv_step:
  assumes "warm_inv st a k" "engine_step cal bar st = Some st'"
  shows "warm_inv st' (Suc a) (k + (if reg_last_close (regime_strategy st) > 0 then 1 else 0))"
    and "reg_last_close (regime_strategy st') = close bar"
proof -
  define k' where "k' = k + (if reg_last_close (regime_strategy st) > 0 then 1 else 0)"
  have wf: "engine_wf st" using assms(1) by (simp add: warm_inv_def)
  obtain rg mo mr where r: "regime_on_bar bar (regime_strategy st) = Some rg" "regime_wf rg"
    "momentum_on_bar bar (momentum_strategy st) = Some mo" "momentum_wf mo"
    "mean_reversion_on_bar bar (mean_reversion_strategy st) = Some mr" "mean_reversion_wf mr"
    using engine_step_wf [OF wf, of bar] by blast
  define sg where "sg = dispatch (regime rg) mo mr"
  have st': "st' = \<lparr>risk_manager = snd (trade_step cal bar sg (execution_engine st, risk_manager st)),
                    execution_engine = fst (trade_step cal bar sg (execution_engine st, risk_manager st)),
                    regime_strategy = rg, momentum_strategy = mo, mean_reversion_strategy = mr\<rparr>"
    using assms(2) unfolding engine_step_eq [OF r(1,3,5)] sg_def by simp
  have rwf: "regime_wf (regime_strategy st)" using wf by (simp add: engine_wf_def)
  note c = regime_on_bar_counts [OF rwf r(1)]
  have old: "rs_period (reg_vol_long (regime_strategy st)) = 200"
    "sma_period (reg_sma_trend (regime_strategy st)) = 300"
    "count (sma_buffer (reg_sma_trend (regime_strategy st))) = min 300 a"
    "count (rs_buffer (reg_vol_long (regime_strategy st))) = min 200 k"
    using assms(1) by (simp_all add: warm_inv_def)
  have cnt: "count (sma_buffer (reg_sma_trend rg)) = min 300 (Suc a)"
    "count (rs_buffer (reg_vol_long rg)) = min 200 k'"
    using c(5,6) old unfolding k'_def by (simp_all add: min_def)
  have per: "rs_period (reg_vol_long rg) = 200" "sma_period (reg_sma_trend rg) = 300"
    using c(3,4) old by simp_all
  have mute: "regime rg = ''UNDEFINED'' \<and>
              fst (trade_step cal bar sg (execution_engine st, risk_manager st))
                = ExecutionEngine_new 100000"
    if early: "Suc a < 300 \<or> k' < 200"
  proof -
    have "a < 300 \<or> k < 200" using early by (auto simp: k'_def split: if_splits)
    then have o: "regime (regime_strategy st) = ''UNDEFINED''"
      "execution_engine st = ExecutionEngine_new 100000"
      using assms(1) by (simp_all add: warm_inv_def)
    have "\<not> (rs_is_ready (reg_vol_long rg) \<and> sma_is_ready (reg_sma_trend rg))"
      using early cnt per by (auto simp: ready_iff_count [OF r(2)])
    then have rgU: "regime rg = ''UNDEFINED''"
      using c(7) o(1) by (simp add: regime_def)
    then have "sg = 0" by (simp add: sg_def dispatch_mute)
    then show ?thesis
      using rgU o(2) by (simp add: trade_step_idle ExecutionEngine_new_def)
  qed
  show "warm_inv st' (Suc a) (k + (if reg_last_close (regime_strategy st) > 0 then 1 else 0))"
    using r(2,4,6) cnt per mute
    by (simp add: warm_inv_def st' engine_wf_def k'_def)
  show "reg_last_close (regime_strategy st') = close bar"
    using c(2) by (simp add: st')
qed

lemma warm_inv_run:
  assumes "warm_inv st a k" "run_loop cal bars st = Some st'"
  shows "warm_inv st' (a + length bars) (k + log_returns_fed (reg_last_close (regime_strategy st)) bars)"
  using assms
proof (induction bars arbitrary: st a k)
  case Nil
  then show ?case by simp
next
  case (Cons bar bars)
  from Cons.prems(2) obtain st1 where st1: "engine_step cal bar st = Some st1"
    and rest: "run_loop cal bars st1 = Some st'"
    by (auto split: option.splits)
  note s = warm_inv_step [OF Cons.prems(1) st1]
  from Cons.IH [OF s(1) rest] show ?case
    by (simp add: s(2) add.assoc)
qed

lemma warm_inv_new: "warm_inv Engine_new 0 0"
proof -
  have "engine_wf Engine_new"
    by (simp add: Engine_new_def engine_wf_def regime_wf_new momentum_wf_new mean_reversion_wf_new)
  moreover have "rs_period (reg_vol_long (regime_strategy Engine_new)) = 200"
    "sma_period (reg_sma_trend (regime_strategy Engine_new)) = 300"
    "count (sma_buffer (reg_sma_trend (regime_strategy Engine_new))) = 0"
    "count (rs_buffer (reg_vol_long (regime_strategy Engine_new))) = 0"
    "regime (regime_strategy Engine_new) = ''UNDEFINED''"
    "execution_engine Engine_new = ExecutionEngine_new 100000"
    by (simp_all add: Engine_new_def RegimeStrategy_new_def RollingStats_new_def
        SimpleMovingAverage_new_def CircularBuffer_new_def regime_def)
  ultimately show ?thesis
    by (simp add: warm_inv_def)
qed

text \<open>
  Claim C10. After any bars of a run, the regime detector's indicators are ready iff at
  least 200 log-returns and 300 closes have been observed. Before that, the regime string
  is "UNDEFINED", the signal dispatched on the bar is 0, and the execution engine is as
  constructed: no order has been submitted, none is pending.
\<close>

theorem warmup_mute:
  assumes "run cal bars Engine_new = Some st"
  shows "((rs_is_ready (reg_vol_long (regime_strategy st)) \<and>
           sma_is_ready (reg_sma_trend (regime_strategy st)))
            \<longleftrightarrow> 200 \<le> log_returns_fed 0 bars \<and> 300 \<le> length bars) \<and>
         (length bars < 300 \<or> log_returns_fed 0 bars < 200 \<longrightarrow>
            regime (regime_strategy st) = ''UNDEFINED'' \<and>
            dispatch (regime (regime_strategy st)) (momentum_strategy st)
              (mean_reversion_strategy st) = 0 \<and>
            execution_engine st = ExecutionEngine_new 100000)"
proof -
  have "run_loop cal bars Engine_new = Some st"
    using assms by (simp add: run_Engine_new)
  from warm_inv_run [OF warm_inv_new this]
  have inv: "warm_inv st (length bars) (log_returns_fed 0 bars)"
    by (simp add: Engine_new_def RegimeStrategy_new_def)
  then have rwf: "regime_wf (regime_strategy st)"
    by (simp add: warm_inv_def engine_wf_def)
  have "(rs_is_ready (reg_vol_long (regime_strategy st)) \<and>
           sma_is_ready (reg_sma_trend (regime_strategy st)))
            \<longleftrightarrow> 200 \<le> log_returns_fed 0 bars \<and> 300 \<le> length bars"
    using inv by (auto simp: ready_iff_count [OF rwf] warm_inv_def)
  moreover have "length bars < 300 \<or> log_returns_fed 0 bars < 200 \<longrightarrow>
            regime (regime_strategy st) = ''UNDEFINED'' \<and>
            dispatch (regime (regime_strategy st)) (momentum_strategy st)
              (mean_reversion_strategy st) = 0 \<and>
            execution_engine st = ExecutionEngine_new 100000"
    using inv by (auto simp: warm_inv_def dispatch_mute)
  ultimately show ?thesis by blast
qed

theorem warmup_mute_witness:
  "\<exists>st. run utc_day [Bar_new 60 100 100 100 100 1000, Bar_new 120 101 101 101 101 1000] Engine_new
           = Some st \<and>
        length [Bar_new 60 100 100 100 100 1000, Bar_new 120 101 101 101 101 1000] < 300 \<and>
        log_returns_fed 0 [Bar_new 60 100 100 100 100 1000, Bar_new 120 101 101 101 101 1000] = 1 \<and>
        \<not> (rs_is_ready (reg_vol_long (regime_strategy st)) \<and>
            sma_is_ready (reg_sma_trend (regime_strategy st))) \<and>
        regime (regime_strategy st) = ''UNDEFINED'' \<and>
        dispatch (regime (regime_strategy st)) (momentum_strategy st)
          (mean_reversion_strategy st) = 0 \<and>
        execution_engine st = ExecutionEngine_new 100000"
proof -
  let ?bars = "[Bar_new 60 100 100 100 100 1000, Bar_new 120 101 101 101 101 1000]"
  obtain st where st: "run utc_day ?bars Engine_new = Some st"
    using run_total by blast
  have f: "log_returns_fed 0 ?bars = 1"
    by (simp add: Bar_new_def)
  note w = warmup_mute [OF st]
  have "\<not> (rs_is_ready (reg_vol_long (regime_strategy st)) \<and>
            sma_is_ready (reg_sma_trend (regime_strategy st)))"
    using w f by simp
  moreover have "regime (regime_strategy st) = ''UNDEFINED'' \<and>
        dispatch (regime (regime_strategy st)) (momentum_strategy st)
          (mean_reversion_strategy st) = 0 \<and>
        execution_engine st = ExecutionEngine_new 100000"
    using w by (simp add: dispatch_mute)
  ultimately show ?thesis
    using st f by (intro exI [of _ st]) (simp add: dispatch_mute)
qed

lemma take_Cons_replicate:
  "take p (x # replicate (min p m) x) = replicate (min p (Suc m)) x"
proof -
  have "x # replicate (min p m) x = replicate (Suc (min p m)) x" by simp
  then have "take p (x # replicate (min p m) x) = replicate (min p (Suc (min p m))) x"
    by (simp only: take_replicate)
  moreover have "min p (Suc (min p m)) = min p (Suc m)" by (simp add: min_def)
  ultimately show ?thesis by simp
qed

lemma window_std_zeros: "window_std (replicate m 0) = 0"
  by (simp add: window_std_def Let_def sum_list_replicate map_replicate)

lemma classify_flat: "classify 0 0 100 100 = ''HV_RANGE''"
  by (simp add: classify_def Let_def)

lemma mean_replicate: "0 < m \<Longrightarrow> sum_list (replicate m (c::real)) / real m = c"
  by (simp add: sum_list_replicate)

lemma const_inv_step:
  assumes "const_inv st n" "const_bar bar" "engine_step cal bar st = Some st'"
  shows "const_inv st' (Suc n)"
proof -
  have wf: "engine_wf st" using assms(1) by (simp add: const_inv_def)
  have cl: "close bar = 100" using assms(2) by (simp add: const_bar_def)
  obtain rg mo mr where r: "regime_on_bar bar (regime_strategy st) = Some rg" "regime_wf rg"
    "momentum_on_bar bar (momentum_strategy st) = Some mo" "momentum_wf mo"
    "mean_reversion_on_bar bar (mean_reversion_strategy st) = Some mr" "mean_reversion_wf mr"
    using engine_step_wf [OF wf, of bar] by blast
  define sg where "sg = dispatch (regime rg) mo mr"
  have st': "st' = \<lparr>risk_manager = snd (trade_step cal bar sg (execution_engine st, risk_manager st)),
                    execution_engine = fst (trade_step cal bar sg (execution_engine st, risk_manager st)),
                    regime_strategy = rg, momentum_strategy = mo, mean_reversion_strategy = mr\<rparr>"
    using assms(3) unfolding engine_step_eq [OF r(1,3,5)] sg_def by simp
  let ?o = "regime_strategy st"
  have rwf: "regime_wf ?o" using wf by (simp add: engine_wf_def)
  have old: "rs_period (reg_vol_short ?o) = 50" "rs_period (reg_vol_long ?o) = 200"
    "sma_period (reg_sma_trend ?o) = 300"
    "contents (rs_buffer (reg_vol_short ?o)) = replicate (min 50 (n - 1)) 0"
    "contents (rs_buffer (reg_vol_long ?o)) = replicate (min 200 (n - 1)) 0"
    "contents (sma_buffer (reg_sma_trend ?o)) = replicate (min 300 n) 100"
    "rs_std_dev (reg_vol_short ?o) = 0" "rs_std_dev (reg_vol_long ?o) = 0"
    "reg_last_close ?o = (if n = 0 then 0 else 100)"
    "reg_current_regime ?o = (if n < 300 then ''UNDEFINED'' else ''HV_RANGE'')"
    "execution_engine st = ExecutionEngine_new 100000"
    using assms(1) by (simp_all add: const_inv_def)
  have sma_c: "contents (sma_buffer (reg_sma_trend rg)) = replicate (min 300 (Suc n)) 100"
    and sma_p: "sma_period (reg_sma_trend rg) = 300"
    and sma_v: "sma_current_value (reg_sma_trend rg) = 100"
    and lc: "reg_last_close rg = 100"
    and vols: "rs_period (reg_vol_short rg) = 50" "rs_period (reg_vol_long rg) = 200"
      "contents (rs_buffer (reg_vol_short rg)) = replicate (min 50 n) 0"
      "contents (rs_buffer (reg_vol_long rg)) = replicate (min 200 n) 0"
      "rs_std_dev (reg_vol_short rg) = 0" "rs_std_dev (reg_vol_long rg) = 0"
    and rgm: "reg_current_regime rg
               = (if \<not> rs_is_ready (reg_vol_long rg) \<or> \<not> sma_is_ready (reg_sma_trend rg)
                  then reg_current_regime ?o
                  else classify (rs_std_dev (reg_vol_short rg)) (rs_std_dev (reg_vol_long rg))
                         (close bar) (sma_current_value (reg_sma_trend rg)))"
  proof -
    have "contents (sma_buffer (reg_sma_trend rg)) = replicate (min 300 (Suc n)) 100
      \<and> sma_period (reg_sma_trend rg) = 300 \<and> sma_current_value (reg_sma_trend rg) = 100
      \<and> reg_last_close rg = 100
      \<and> rs_period (reg_vol_short rg) = 50 \<and> rs_period (reg_vol_long rg) = 200
      \<and> contents (rs_buffer (reg_vol_short rg)) = replicate (min 50 n) 0
      \<and> contents (rs_buffer (reg_vol_long rg)) = replicate (min 200 n) 0
      \<and> rs_std_dev (reg_vol_short rg) = 0 \<and> rs_std_dev (reg_vol_long rg) = 0
      \<and> reg_current_regime rg
               = (if \<not> rs_is_ready (reg_vol_long rg) \<or> \<not> sma_is_ready (reg_sma_trend rg)
                  then reg_current_regime ?o
                  else classify (rs_std_dev (reg_vol_short rg)) (rs_std_dev (reg_vol_long rg))
                         (close bar) (sma_current_value (reg_sma_trend rg)))"
    proof (cases "n = 0")
      case True
      then have "\<not> reg_last_close ?o > 0" using old(9) by simp
      from regime_on_bar_skip [OF rwf this, of bar] r(1)
      have s: "reg_vol_short rg = reg_vol_short ?o" "reg_vol_long rg = reg_vol_long ?o"
        "reg_last_close rg = close bar"
        "sma_period (reg_sma_trend rg) = sma_period (reg_sma_trend ?o)"
        "contents (sma_buffer (reg_sma_trend rg))
           = take (sma_period (reg_sma_trend ?o)) (close bar # contents (sma_buffer (reg_sma_trend ?o)))"
        "sma_current_value (reg_sma_trend rg)
           = sum_list (contents (sma_buffer (reg_sma_trend rg)))
             / real (length (contents (sma_buffer (reg_sma_trend rg))))"
        "reg_current_regime rg
               = (if \<not> rs_is_ready (reg_vol_long rg) \<or> \<not> sma_is_ready (reg_sma_trend rg)
                  then reg_current_regime ?o
                  else classify (rs_std_dev (reg_vol_short rg)) (rs_std_dev (reg_vol_long rg))
                         (close bar) (sma_current_value (reg_sma_trend rg)))"
        by auto
      have c: "contents (sma_buffer (reg_sma_trend rg)) = replicate (min 300 (Suc n)) 100"
        unfolding s(5) old(3,6) cl by (rule take_Cons_replicate)
      have v: "sma_current_value (reg_sma_trend rg) = 100"
        unfolding s(6) c length_replicate by (rule mean_replicate) simp
      show ?thesis
        using c v s(1-4) s(7) old True cl by simp
    next
      case False
      then have pos: "reg_last_close ?o > 0" and lr: "ln (close bar / reg_last_close ?o) = 0"
        using old(9) cl by simp_all
      from regime_on_bar_feed [OF rwf pos, of bar] r(1)
      have s: "reg_last_close rg = close bar"
        "rs_period (reg_vol_short rg) = rs_period (reg_vol_short ?o)"
        "rs_period (reg_vol_long rg) = rs_period (reg_vol_long ?o)"
        "contents (rs_buffer (reg_vol_short rg))
           = take (rs_period (reg_vol_short ?o)) (0 # contents (rs_buffer (reg_vol_short ?o)))"
        "contents (rs_buffer (reg_vol_long rg))
           = take (rs_period (reg_vol_long ?o)) (0 # contents (rs_buffer (reg_vol_long ?o)))"
        "rs_std_dev (reg_vol_short rg) = window_std (contents (rs_buffer (reg_vol_short rg)))"
        "rs_std_dev (reg_vol_long rg) = window_std (contents (rs_buffer (reg_vol_long rg)))"
        "sma_period (reg_sma_trend rg) = sma_period (reg_sma_trend ?o)"
        "contents (sma_buffer (reg_sma_trend rg))
           = take (sma_period (reg_sma_trend ?o)) (close bar # contents (sma_buffer (reg_sma_trend ?o)))"
        "sma_current_value (reg_sma_trend rg)
           = sum_list (contents (sma_buffer (reg_sma_trend rg)))
             / real (length (contents (sma_buffer (reg_sma_trend rg))))"
        "reg_current_regime rg
               = (if \<not> rs_is_ready (reg_vol_long rg) \<or> \<not> sma_is_ready (reg_sma_trend rg)
                  then reg_current_regime ?o
                  else classify (rs_std_dev (reg_vol_short rg)) (rs_std_dev (reg_vol_long rg))
                         (close bar) (sma_current_value (reg_sma_trend rg)))"
        unfolding lr by auto
      have c: "contents (sma_buffer (reg_sma_trend rg)) = replicate (min 300 (Suc n)) 100"
        unfolding s(9) old(3,6) cl by (rule take_Cons_replicate)
      have v: "sma_current_value (reg_sma_trend rg) = 100"
        unfolding s(10) c length_replicate by (rule mean_replicate) simp
      have n1: "Suc (n - 1) = n" using False by simp
      have cs: "contents (rs_buffer (reg_vol_short rg)) = replicate (min 50 n) 0"
        unfolding s(4) old(1,4) using take_Cons_replicate [of 50 0 "n - 1"] by (simp only: n1)
      have cl2: "contents (rs_buffer (reg_vol_long rg)) = replicate (min 200 n) 0"
        unfolding s(5) old(2,5) using take_Cons_replicate [of 200 0 "n - 1"] by (simp only: n1)
      have sd: "rs_std_dev (reg_vol_short rg) = 0" "rs_std_dev (reg_vol_long rg) = 0"
        unfolding s(6,7) cs cl2 by (simp_all add: window_std_zeros)
      show ?thesis
        using c v cs cl2 sd s(1-3) s(8) s(11) old(1-3) cl by simp
    qed
    then show "contents (sma_buffer (reg_sma_trend rg)) = replicate (min 300 (Suc n)) 100"
      "sma_period (reg_sma_trend rg) = 300" "sma_current_value (reg_sma_trend rg) = 100"
      "reg_last_close rg = 100"
      "rs_period (reg_vol_short rg) = 50" "rs_period (reg_vol_long rg) = 200"
      "contents (rs_buffer (reg_vol_short rg)) = replicate (min 50 n) 0"
      "contents (rs_buffer (reg_vol_long rg)) = replicate (min 200 n) 0"
      "rs_std_dev (reg_vol_short rg) = 0" "rs_std_dev (reg_vol_long rg) = 0"
      "reg_current_regime rg
               = (if \<not> rs_is_ready (reg_vol_long rg) \<or> \<not> sma_is_ready (reg_sma_trend rg)
                  then reg_current_regime ?o
                  else classify (rs_std_dev (reg_vol_short rg)) (rs_std_dev (reg_vol_long rg))
                         (close bar) (sma_current_value (reg_sma_trend rg)))"
      by blast+
  qed
  have cnt: "count (sma_buffer (reg_sma_trend rg)) = min 300 (Suc n)"
    "count (rs_buffer (reg_vol_long rg)) = min 200 n"
    using sma_c vols(4) by (simp_all add: length_contents [symmetric])
  have ready: "(rs_is_ready (reg_vol_long rg) \<and> sma_is_ready (reg_sma_trend rg)) \<longleftrightarrow> 300 \<le> Suc n"
    using cnt sma_p vols(2) by (auto simp: ready_iff_count [OF r(2)])
  have reg: "reg_current_regime rg = (if Suc n < 300 then ''UNDEFINED'' else ''HV_RANGE'')"
  proof (cases "300 \<le> Suc n")
    case True
    then have "rs_is_ready (reg_vol_long rg) \<and> sma_is_ready (reg_sma_trend rg)"
      using ready by simp
    then show ?thesis
      using True rgm vols(5,6) sma_v cl by (simp add: classify_flat)
  next
    case False
    then have "\<not> (rs_is_ready (reg_vol_long rg) \<and> sma_is_ready (reg_sma_trend rg))"
      using ready by simp
    then show ?thesis
      using False rgm old(10) by auto
  qed
  then have "sg = 0"
    by (simp add: sg_def regime_def dispatch_mute)
  then have ex: "execution_engine st' = ExecutionEngine_new 100000"
    using old(11) by (simp add: st' trade_step_idle ExecutionEngine_new_def)
  show ?thesis
    using r(2,4,6) sma_c sma_p vols lc reg ex
    by (simp add: const_inv_def engine_wf_def st')
qed

lemma const_inv_run:
  assumes "const_inv st n" "\<forall>b\<in>set bars. const_bar b" "run_loop cal bars st = Some st'"
  shows "const_inv st' (n + length bars)"
  using assms
proof (induction bars arbitrary: st n)
  case Nil
  then show ?case by simp
next
  case (Cons bar bars)
  from Cons.prems(3) obtain st1 where st1: "engine_step cal bar st = Some st1"
    and rest: "run_loop cal bars st1 = Some st'"
    by (auto split: option.splits)
  have "const_inv st1 (Suc n)"
    using Cons.prems(1,2) st1 by (intro const_inv_step [of st n bar cal]) simp_all
  from Cons.IH [OF this _ rest] Cons.prems(2) show ?case
    by simp
qed

lemma const_inv_new: "const_inv Engine_new 0"
proof -
  have "engine_wf Engine_new"
    by (simp add: Engine_new_def engine_wf_def regime_wf_new momentum_wf_new mean_reversion_wf_new)
  moreover have "rs_period (reg_vol_short (regime_strategy Engine_new)) = 50"
    "rs_period (reg_vol_long (regime_strategy Engine_new)) = 200"
    "sma_period (reg_sma_trend (regime_strategy Engine_new)) = 300"
    "contents (rs_buffer (reg_vol_short (regime_strategy Engine_new))) = []"
    "contents (rs_buffer (reg_vol_long (regime_strategy Engine_new))) = []"
    "contents (sma_buffer (reg_sma_trend (regime_strategy Engine_new))) = []"
    "rs_std_dev (reg_vol_short (regime_strategy Engine_new)) = 0"
    "rs_std_dev (reg_vol_long (regime_strategy Engine_new)) = 0"
    "reg_last_close (regime_strategy Engine_new) = 0"
    "reg_current_regime (regime_strategy Engine_new) = ''UNDEFINED''"
    "execution_engine Engine_new = ExecutionEngine_new 100000"
    by (simp_all add: Engine_new_def RegimeStrategy_new_def RollingStats_new_def
        SimpleMovingAverage_new_def contents_new)
  ultimately show ?thesis
    by (simp add: const_inv_def)
qed

lemma const_run:
  assumes "\<forall>b\<in>set bars. const_bar b"
  shows "\<exists>st. run cal bars Engine_new = Some st \<and> const_inv st (length bars)"
proof -
  obtain st where st: "run cal bars Engine_new = Some st"
    using run_total by blast
  then have "run_loop cal bars Engine_new = Some st"
    by (simp add: run_Engine_new)
  from const_inv_run [OF const_inv_new assms this] st show ?thesis
    by simp
qed

lemma const_inv_ready:
  assumes "const_inv st n"
  shows "(rs_is_ready (reg_vol_long (regime_strategy st)) \<and>
          sma_is_ready (reg_sma_trend (regime_strategy st))) \<longleftrightarrow> 300 \<le> n"
proof -
  have rwf: "regime_wf (regime_strategy st)"
    using assms by (simp add: const_inv_def engine_wf_def)
  have "count (rs_buffer (reg_vol_long (regime_strategy st))) = min 200 (n - 1)"
    "count (sma_buffer (reg_sma_trend (regime_strategy st))) = min 300 n"
    "rs_period (reg_vol_long (regime_strategy st)) = 200"
    "sma_period (reg_sma_trend (regime_strategy st)) = 300"
    using assms by (simp_all add: const_inv_def length_contents [symmetric])
  then show ?thesis
    by (auto simp: ready_iff_count [OF rwf])
qed

text \<open>
  Claim C7. On bars whose open, high, low and close are all 100.0, with volume 1000, the
  run ends; the trade ledger is empty and the equity is 100000; both return standard
  deviations are 0; the regime detector's indicators are ready from the 300th bar on, and
  from then on it reports "HV_RANGE": the comparison for low volatility is strict, and
  0 < 0 is false. With 500 such bars the regime is "HV_RANGE".
\<close>

theorem constant_price_scenario:
  assumes "\<forall>b\<in>set bars. const_bar b"
  shows "\<exists>st. run cal bars Engine_new = Some st \<and>
           trades (execution_engine st) = [] \<and>
           get_equity (execution_engine st) 100.0 = 100000.0 \<and>
           rs_std_dev (reg_vol_short (regime_strategy st)) = 0 \<and>
           rs_std_dev (reg_vol_long (regime_strategy st)) = 0 \<and>
           ((rs_is_ready (reg_vol_long (regime_strategy st)) \<and>
             sma_is_ready (reg_sma_trend (regime_strategy st))) \<longleftrightarrow> 300 \<le> length bars) \<and>
           regime (regime_strategy st)
             = (if length bars < 300 then ''UNDEFINED'' else ''HV_RANGE'')"
proof -
  obtain st where st: "run cal bars Engine_new = Some st" "const_inv st (length bars)"
    using const_run [OF assms] by blast
  have "trades (execution_engine st) = []" "get_equity (execution_engine st) 100.0 = 100000.0"
    using st(2) by (simp_all add: const_inv_def ExecutionEngine_new_def get_equity_def)
  moreover have "rs_std_dev (reg_vol_short (regime_strategy st)) = 0"
    "rs_std_dev (reg_vol_long (regime_strategy st)) = 0"
    "regime (regime_strategy st) = (if length bars < 300 then ''UNDEFINED'' else ''HV_RANGE'')"
    using st(2) by (simp_all add: const_inv_def regime_def)
  ultimately show ?thesis
    using st(1) const_inv_ready [OF st(2)] by (intro exI [of _ st]) simp
qed

lemma s1_bars_const: "\<forall>b\<in>set s1_bars. const_bar b"
  by (auto simp: s1_bars_def const_bar_def Bar_new_def)

lemma s1_bars_length: "length s1_bars = 500"
  by (simp add: s1_bars_def)

theorem constant_price_scenario_witness:
  "list_all const_bar s1_bars \<and> length s1_bars = 500 \<and>
   (\<exists>st. run utc_day s1_bars Engine_new = Some st \<and>
      trades (execution_engine st) = [] \<and>
      get_equity (execution_engine st) 100.0 = 100000.0 \<and>
      rs_std_dev (reg_vol_short (regime_strategy st)) = 0 \<and>
      rs_std_dev (reg_vol_long (regime_strategy st)) = 0 \<and>
      rs_is_ready (reg_vol_long (regime_strategy st)) \<and>
      sma_is_ready (reg_sma_trend (regime_strategy st)) \<and>
      regime (regime_strategy st) = ''HV_RANGE'')"
proof -
  have a: "list_all const_bar s1_bars"
    using s1_bars_const by (simp add: list_all_iff)
  from constant_price_scenario [OF s1_bars_const, of utc_day]
  have "\<exists>st. run utc_day s1_bars Engine_new = Some st \<and>
      trades (execution_engine st) = [] \<and>
      get_equity (execution_engine st) 100.0 = 100000.0 \<and>
      rs_std_dev (reg_vol_short (regime_strategy st)) = 0 \<and>
      rs_std_dev (reg_vol_long (regime_strategy st)) = 0 \<and>
      rs_is_ready (reg_vol_long (regime_strategy st)) \<and>
      sma_is_ready (reg_sma_trend (regime_strategy st)) \<and>
      regime (regime_strategy st) = ''HV_RANGE''"
    by (simp add: s1_bars_length)
  with a s1_bars_length show ?thesis by blast
qed

text \<open>On the 500 bars of scenario S1 the regime is "HV_RANGE", not "LV_RANGE".\<close>

theorem constant_price_regime_counterexample:
  "map_option (\<lambda>st. regime (regime_strategy st)) (run utc_day s1_bars Engine_new)
     = Some ''HV_RANGE'' \<and>
   map_option (\<lambda>st. rs_is_ready (reg_vol_long (regime_strategy st)) \<and>
                     sma_is_ready (reg_sma_trend (regime_strategy st)))
     (run utc_day s1_bars Engine_new) = Some True \<and>
   ''HV_RANGE'' \<noteq> ''LV_RANGE''"
proof -
  obtain st where st: "run utc_day s1_bars Engine_new = Some st" "const_inv st (length s1_bars)"
    using const_run [OF s1_bars_const] by blast
  have "regime (regime_strategy st) = ''HV_RANGE''"
    using st(2) by (simp add: const_inv_def regime_def s1_bars_length)
  moreover have "rs_is_ready (reg_vol_long (regime_strategy st)) \<and>
                 sma_is_ready (reg_sma_trend (regime_strategy st))"
    using const_inv_ready [OF st(2)] by (simp add: s1_bars_length)
  ultimately show ?thesis
    by (simp add: st(1))
qed


section \<open>Streaming and batch indicators\<close>

subsection \<open>The rounding of the doubles\<close>

lemma round_half_even_int: "round_half_even (of_int z) = z"
  by (simp add: round_half_even_def)

lemma min_subnormal_pos: "0 < min_subnormal"
  by (simp add: min_subnormal_def)

lemma round64_subnormal:
  assumes "\<bar>r\<bar> < 2 ^ 52"
  shows "round64 (r * min_subnormal) = of_int (round_half_even r) * min_subnormal"
proof (cases "r = 0")
  case True
  then show ?thesis by (simp add: round64_def round_half_even_def)
next
  case False
  define x where "x = r * min_subnormal"
  have x0: "x \<noteq> 0" using False min_subnormal_pos by (simp add: x_def)
  have ax: "\<bar>x\<bar> = \<bar>r\<bar> * min_subnormal"
    using min_subnormal_pos by (simp add: x_def abs_mult)
  have "\<bar>x\<bar> < 2 ^ 52 * min_subnormal"
    unfolding ax using assms min_subnormal_pos by simp
  also have "\<dots> = 2 powr (- 1022)"
  proof -
    have "(2::real) ^ 52 = 2 powr real 52"
      by (rule powr_realpow [symmetric]) simp
    then have "(2::real) ^ 52 * 2 powr (- 1074) = 2 powr (real 52 + (- 1074))"
      by (simp only: powr_add)
    also have "real 52 + (- 1074) = - 1022" by simp
    finally show ?thesis
      unfolding min_subnormal_def .
  qed
  finally have lt: "\<bar>x\<bar> < 2 powr (- 1022)" .
  have "log 2 \<bar>x\<bar> < - 1022"
    using lt x0 by (simp add: log_less_iff)
  then have "\<lfloor>log 2 \<bar>x\<bar>\<rfloor> < - 1022"
    by linarith
  then have e: "max \<lfloor>log 2 \<bar>x\<bar>\<rfloor> (- 1022) = - 1022" by simp
  have q: "x / min_subnormal = r"
    using min_subnormal_pos by (simp add: x_def)
  have "round64 x = of_int (round_half_even (x / min_subnormal)) * min_subnormal"
    unfolding round64_def using x0 by (simp add: e Let_def min_subnormal_def)
  then show ?thesis
    unfolding q unfolding x_def .
qed

lemma round64_exact:
  assumes "\<bar>m\<bar> < 2 ^ 53" "- 1074 \<le> k"
  shows "round64 (of_int m * 2 powr of_int k) = of_int m * 2 powr of_int k"
proof (cases "m = 0")
  case True
  then show ?thesis by (simp add: round64_def)
next
  case False
  define x :: real where "x = of_int m * 2 powr of_int k"
  have x0: "x \<noteq> 0" using False by (simp add: x_def)
  have ax: "\<bar>x\<bar> = of_int \<bar>m\<bar> * 2 powr of_int k"
    by (simp add: x_def abs_mult)
  have "of_int \<bar>m\<bar> < (2::real) ^ 53"
    using assms(1) by (metis of_int_less_numeral_power_cancel_iff)
  then have "\<bar>x\<bar> < 2 ^ 53 * 2 powr of_int k"
    unfolding ax by simp
  also have "\<dots> = 2 powr (of_int k + 53)"
  proof -
    have "(2::real) ^ 53 = 2 powr real 53"
      by (rule powr_realpow [symmetric]) simp
    then have "(2::real) ^ 53 * 2 powr of_int k = 2 powr (real 53 + of_int k)"
      by (simp only: powr_add)
    also have "real 53 + of_int k = of_int k + 53" by simp
    finally show ?thesis .
  qed
  finally have "log 2 \<bar>x\<bar> < of_int k + 53"
    using x0 by (simp add: log_less_iff)
  then have fl: "\<lfloor>log 2 \<bar>x\<bar>\<rfloor> \<le> k + 52"
    by linarith
  define e where "e = max \<lfloor>log 2 \<bar>x\<bar>\<rfloor> (- 1022)"
  have e: "e \<le> k + 52" using fl assms(2) by (simp add: e_def)
  define d where "d = nat (k + 52 - e)"
  have d: "int d = k + 52 - e" using e by (simp add: d_def)
  have "x / 2 powr of_int (e - 52) = of_int m * 2 powr (of_int k - of_int (e - 52))"
    by (simp add: x_def powr_diff)
  also have "of_int k - of_int (e - 52) = (real d)"
    using d by (metis of_int_diff of_int_of_nat_eq diff_diff_eq2 add.commute diff_add_eq)
  also have "2 powr real d = 2 ^ d"
    by (simp add: powr_realpow)
  finally have q: "x / 2 powr of_int (e - 52) = of_int (m * 2 ^ d)"
    by simp
  have "of_int (round_half_even (x / 2 powr of_int (e - 52))) * 2 powr of_int (e - 52) = x"
    unfolding q round_half_even_int
    using q by (metis nonzero_divide_eq_eq powr_eq_0_iff zero_neq_numeral)
  then show ?thesis
    unfolding x_def [symmetric] round64_def e_def [symmetric] using x0 by (simp add: Let_def)
qed

lemma round64_of_int:
  assumes "\<bar>n\<bar> < 2 ^ 53"
  shows "round64 (of_int n) = of_int n"
  using round64_exact [OF assms, of 0] by simp

lemma round64_half: "round64 (1 / 2) = 1 / 2"
proof -
  have h: "of_int 1 * 2 powr of_int (- 1) = (1 / 2 :: real)"
    by (simp add: powr_neg_one)
  have "round64 (of_int 1 * 2 powr of_int (- 1)) = of_int 1 * 2 powr of_int (- 1)"
    by (rule round64_exact) simp_all
  then show ?thesis
    unfolding h .
qed

lemma round64_normal:
  assumes "2 powr of_int e \<le> \<bar>x\<bar>" "\<bar>x\<bar> < 2 powr of_int (e + 1)" "- 1022 \<le> e"
  shows "round64 x = of_int (round_half_even (x / 2 powr of_int (e - 52))) * 2 powr of_int (e - 52)"
proof -
  have pos: "0 < \<bar>x\<bar>"
    using assms(1) by (smt (verit) powr_gt_zero)
  then have x0: "x \<noteq> 0" by simp
  have "of_int e \<le> log 2 \<bar>x\<bar>"
    using assms(1) pos by (simp add: le_log_iff)
  moreover have "log 2 \<bar>x\<bar> < of_int e + 1"
    using assms(2) pos by (simp add: log_less_iff add.commute)
  ultimately have "\<lfloor>log 2 \<bar>x\<bar>\<rfloor> = e"
    by linarith
  then show ?thesis
    using x0 assms(3) by (simp add: round64_def Let_def max_def)
qed

lemma round64_tie: "round64 9007199254740993 = 9007199254740992"
proof -
  have a: "(2::real) powr of_int 53 = 9007199254740992" "(2::real) powr of_int (53 + 1) = 18014398509481984"
    "(2::real) powr of_int (53 - 52) = 2"
    by (simp_all add: powr_numeral)
  have "round64 9007199254740993
          = of_int (round_half_even (9007199254740993 / 2 powr of_int (53 - 52))) * 2 powr of_int (53 - 52)"
  proof (rule round64_normal)
    show "2 powr of_int 53 \<le> \<bar>9007199254740993 :: real\<bar>" unfolding a by simp
    show "\<bar>9007199254740993 :: real\<bar> < 2 powr of_int (53 + 1)" unfolding a by simp
    show "- 1022 \<le> (53 :: int)" by simp
  qed
  also have "\<dots> = 9007199254740992"
    unfolding a by (simp add: round_half_even_def Let_def)
  finally show ?thesis .
qed

lemma round64_pow2: "round64 (2 ^ k) = 2 ^ k"
proof -
  have h: "of_int 1 * 2 powr of_int (int k) = (2 ^ k :: real)"
    by (simp add: powr_realpow)
  have "round64 (of_int 1 * 2 powr of_int (int k)) = of_int 1 * 2 powr of_int (int k)"
    by (rule round64_exact) simp_all
  then show ?thesis
    unfolding h .
qed

lemma round64_inv_pow2:
  assumes "k \<le> 1074"
  shows "round64 (1 / 2 ^ k) = 1 / 2 ^ k"
proof -
  have "(2::real) powr (- real k) = 1 / 2 powr real k"
    by (simp add: powr_minus divide_inverse)
  then have h: "of_int 1 * 2 powr of_int (- int k) = (1 / 2 ^ k :: real)"
    by (simp add: powr_realpow)
  have "round64 (of_int 1 * 2 powr of_int (- int k)) = of_int 1 * 2 powr of_int (- int k)"
    using assms by (intro round64_exact) simp_all
  then show ?thesis
    unfolding h .
qed

lemma round64_big: "round64 81129638414606681695789005144065 = 81129638414606681695789005144064"
proof -
  have a: "(2::real) powr of_int 106 = 81129638414606681695789005144064"
    "(2::real) powr of_int (106 + 1) = 162259276829213363391578010288128"
    "(2::real) powr of_int (106 - 52) = 18014398509481984"
    by (simp_all add: powr_numeral)
  have "round64 81129638414606681695789005144065
          = of_int (round_half_even (81129638414606681695789005144065 / 2 powr of_int (106 - 52)))
              * 2 powr of_int (106 - 52)"
  proof (rule round64_normal)
    show "2 powr of_int 106 \<le> \<bar>81129638414606681695789005144065 :: real\<bar>" unfolding a by simp
    show "\<bar>81129638414606681695789005144065 :: real\<bar> < 2 powr of_int (106 + 1)" unfolding a by simp
    show "- 1022 \<le> (106 :: int)" by simp
  qed
  also have "\<dots> = 81129638414606681695789005144064"
    unfolding a by (simp add: round_half_even_def Let_def)
  finally show ?thesis .
qed

lemma round64_dyadic:
  "round64 9007199254740992 = 9007199254740992"
  "round64 81129638414606681695789005144064 = 81129638414606681695789005144064"
  "round64 (1 / 4) = 1 / 4"
  "round64 (1 / 2147483648) = 1 / 2147483648"
  "round64 (1 / 4294967296) = 1 / 4294967296"
  "round64 (1 / 4611686018427387904) = 1 / 4611686018427387904"
  "round64 (1 / 9223372036854775808) = 1 / 9223372036854775808"
  "round64 (1 / 18446744073709551616) = 1 / 18446744073709551616"
  using round64_pow2 [of 53] round64_pow2 [of 106] round64_inv_pow2 [of 2]
    round64_inv_pow2 [of 31] round64_inv_pow2 [of 32] round64_inv_pow2 [of 62]
    round64_inv_pow2 [of 63] round64_inv_pow2 [of 64]
  by simp_all

lemma sqrt_dyadic: "sqrt (1 / 4) = 1 / 2" "sqrt (1 / 18446744073709551616) = 1 / 4294967296"
  by (rule real_sqrt_unique; simp add: power2_eq_square)+

lemma round64_zero: "round64 0 = 0"
  by (simp add: round64_def)

lemma round64_numeral:
  assumes "(numeral w :: int) < 2 ^ 53"
  shows "round64 (numeral w) = numeral w"
  using round64_of_int [of "numeral w"] assms by simp

lemma round64_neg_numeral:
  assumes "(numeral w :: int) < 2 ^ 53"
  shows "round64 (- numeral w) = - numeral w"
  using round64_of_int [of "- numeral w"] assms by simp

lemma round64_one: "round64 1 = 1" "round64 (- 1) = - 1"
  using round64_of_int [of 1] round64_of_int [of "- 1"] by simp_all

lemma sub_sign:
  "0 < r * min_subnormal \<longleftrightarrow> 0 < r"
  "r * min_subnormal < 0 \<longleftrightarrow> r < 0"
  "r * min_subnormal = 0 \<longleftrightarrow> r = 0"
  "0 < min_subnormal" "\<not> min_subnormal < 0" "min_subnormal \<noteq> 0"
  using min_subnormal_pos by (simp_all add: zero_less_mult_iff mult_less_0_iff)

subsection \<open>Exact arithmetic is the identity rounding\<close>

lemma sma_update_fp_exact: "sma_update_fp (\<lambda>x. x) v s = sma_update v s"
  by (simp add: sma_update_fp_def sma_update_def)

lemma rsi_update_fp_exact: "rsi_update_fp (\<lambda>x. x) v s = rsi_update v s"
  by (simp add: rsi_update_fp_def rsi_update_def rsi_formula_def Let_def split: option.splits)

lemma atr_update_fp_exact: "atr_update_fp (\<lambda>x. x) h l c s = atr_update h l c s"
  by (simp add: atr_update_fp_def atr_update_def)

lemma roc_update_fp_exact: "roc_update_fp (\<lambda>x. x) v s = roc_update v s"
  by (simp add: roc_update_fp_def roc_update_def)

lemma rs_update_fp_exact: "rs_update_fp (\<lambda>x. x) v s = rs_update v s"
  by (simp add: rs_update_fp_def rs_update_def)

subsection \<open>SimpleMovingAverage and sma\<close>

lemma sma_prime:
  "m \<le> p \<Longrightarrow> fold (\<lambda>i sum. rnd (sum + prices ! i)) [0..<m] 0 = running_sum rnd p prices m"
  by (induction m) simp_all

lemma sma_loop:
  assumes "0 < p" "p \<le> m" "m \<le> length prices" "length res = length prices"
    and "res ! (p - 1) = Some (rnd (running_sum rnd p prices p / real p))"
  shows "fst (fold (sma_loop_body rnd prices p) [p..<m] (running_sum rnd p prices p, res))
           = running_sum rnd p prices m
       \<and> length (snd (fold (sma_loop_body rnd prices p) [p..<m] (running_sum rnd p prices p, res)))
           = length prices
       \<and> snd (fold (sma_loop_body rnd prices p) [p..<m] (running_sum rnd p prices p, res)) ! (m - 1)
           = Some (rnd (running_sum rnd p prices m / real p))"
  using assms(2,3)
proof (induction m)
  case 0
  then show ?case using assms by simp
next
  case (Suc m)
  show ?case
  proof (cases "p = Suc m")
    case True
    then show ?thesis using assms by simp
  next
    case False
    then have pm: "p \<le> m" "m < length prices" using Suc.prems by simp_all
    note IH = Suc.IH [OF pm(1) less_imp_le [OF pm(2)]]
    have up: "[p..<Suc m] = [p..<m] @ [m]" using pm by simp
    show ?thesis
      using IH pm assms(1)
      by (simp add: up sma_loop_body_def Let_def)
  qed
qed

lemma sma_batch_last:
  assumes "0 < p" "p \<le> length prices"
  shows "sma rnd prices p ! (length prices - 1)
           = Some (rnd (running_sum rnd p prices (length prices) / real p))"
proof -
  define res where "res = (replicate (length prices) (None :: real option))
                            [p - 1 := Some (rnd (running_sum rnd p prices p / real p))]"
  have s0: "fold (\<lambda>i sum. rnd (sum + prices ! i)) [0..<p] 0 = running_sum rnd p prices p"
    by (rule sma_prime) simp
  have r: "length res = length prices"
    "res ! (p - 1) = Some (rnd (running_sum rnd p prices p / real p))"
    using assms by (simp_all add: res_def)
  have "snd (fold (sma_loop_body rnd prices p) [p..<length prices]
               (running_sum rnd p prices p, res)) ! (length prices - 1)
          = Some (rnd (running_sum rnd p prices (length prices) / real p))"
    using sma_loop [of p "length prices" prices res rnd] assms r by simp
  then show ?thesis
    using assms by (simp add: sma_def Let_def s0 res_def)
qed

lemma take_Cons_take: "take p (x # take p ys) = take p (x # ys)"
  by (cases p) simp_all

lemma rev_take_Suc: "n < length xs \<Longrightarrow> rev (take (Suc n) xs) = xs ! n # rev (take n xs)"
  by (simp add: take_Suc_conv_app_nth)

lemma window_oldest:
  assumes "0 < p" "p \<le> n" "n \<le> length xs"
  shows "take p (rev (take n xs)) ! (p - 1) = xs ! (n - p)"
proof -
  have "take p (rev (take n xs)) ! (p - 1) = rev (take n xs) ! (p - 1)"
    using assms by simp
  also have "\<dots> = take n xs ! (length (take n xs) - Suc (p - 1))"
    using assms by (intro rev_nth) simp
  also have "\<dots> = xs ! (n - p)"
    using assms by simp
  finally show ?thesis .
qed

lemma sma_at_new: "0 < p \<Longrightarrow> sma_at rnd p prices 0 (SimpleMovingAverage_new p)"
  by (simp add: sma_at_def SimpleMovingAverage_new_def cb_wf_new contents_new capacity_new)

lemma sma_at_step:
  assumes "0 < p" "n < length prices" "sma_at rnd p prices n s"
  shows "\<exists>s'. sma_update_fp rnd (prices ! n) s
                 = Some (rnd (running_sum rnd p prices (Suc n) / real (min p (Suc n))), s')
             \<and> sma_at rnd p prices (Suc n) s'"
proof -
  have inv: "sma_period s = p" "cb_wf (sma_buffer s)" "capacity (sma_buffer s) = p"
    "contents (sma_buffer s) = take p (rev (take n prices))"
    "sma_sum s = running_sum rnd p prices n"
    using assms(3) by (simp_all add: sma_at_def)
  have cnt: "count (sma_buffer s) = min p n"
    using inv(4) assms(2) length_contents [of "sma_buffer s"] by simp
  have full: "is_full (sma_buffer s) \<longleftrightarrow> p \<le> n"
    by (simp add: is_full_def cnt inv(3) min_def)
  define sum1 where "sum1 = (if p \<le> n then rnd (sma_sum s - prices ! (n - p)) else sma_sum s)"
  have g: "(if is_full (sma_buffer s)
            then do { oldest \<leftarrow> get (sma_buffer s) (sma_period s - 1);
                      Some (rnd (sma_sum s - oldest)) }
            else Some (sma_sum s)) = Some sum1"
  proof (cases "p \<le> n")
    case True
    have "get (sma_buffer s) (p - 1) = Some (contents (sma_buffer s) ! (p - 1))"
      using True assms(1) by (simp add: get_contents cnt)
    also have "contents (sma_buffer s) ! (p - 1) = prices ! (n - p)"
      unfolding inv(4) by (rule window_oldest [OF assms(1) True less_imp_le [OF assms(2)]])
    finally show ?thesis
      using True by (simp add: full inv(1) sum1_def)
  next
    case False
    then show ?thesis by (simp add: full sum1_def)
  qed
  have rs: "rnd (sum1 + prices ! n) = running_sum rnd p prices (Suc n)"
    by (auto simp: sum1_def inv(5))
  have sz: "size_cb (push (prices ! n) (sma_buffer s)) = min p (Suc n)"
    by (simp add: size_cb_def count_push cnt inv(3) min_def)
  define s' where "s' = s\<lparr>sma_sum := running_sum rnd p prices (Suc n),
      sma_buffer := push (prices ! n) (sma_buffer s),
      sma_current_value := rnd (running_sum rnd p prices (Suc n) / real (min p (Suc n)))\<rparr>"
  have upd: "sma_update_fp rnd (prices ! n) s
               = Some (rnd (running_sum rnd p prices (Suc n) / real (min p (Suc n))), s')"
    unfolding sma_update_fp_def g by (simp add: rs sz s'_def Let_def)
  have c: "contents (sma_buffer s') = take p (rev (take (Suc n) prices))"
    using contents_push [OF inv(2), of "prices ! n"]
    by (simp add: s'_def inv(3,4) take_Cons_take rev_take_Suc [OF assms(2)])
  have "sma_at rnd p prices (Suc n) s'"
    unfolding sma_at_def using c inv cb_wf_push [OF inv(2)]
    by (simp add: s'_def capacity_push)
  with upd show ?thesis by blast
qed

lemma sma_feed_from:
  assumes "0 < p" "sma_at rnd p prices n s" "n \<le> length prices"
  shows "\<exists>r s'. sma_feed rnd (drop n prices) (r0, s) = Some (r, s')
           \<and> sma_at rnd p prices (length prices) s'
           \<and> (n < length prices \<longrightarrow>
                r = rnd (running_sum rnd p prices (length prices) / real (min p (length prices))))"
  using assms(2,3)
proof (induction "length prices - n" arbitrary: n s r0)
  case 0
  then show ?case by simp
next
  case (Suc k)
  then have n: "n < length prices" by simp
  obtain s1 where s1: "sma_update_fp rnd (prices ! n) s
        = Some (rnd (running_sum rnd p prices (Suc n) / real (min p (Suc n))), s1)"
    "sma_at rnd p prices (Suc n) s1"
    using sma_at_step [OF assms(1) n Suc.prems(1)] by blast
  have k: "k = length prices - Suc n" using Suc.hyps(2) by simp
  obtain r s' where r: "sma_feed rnd (drop (Suc n) prices)
         (rnd (running_sum rnd p prices (Suc n) / real (min p (Suc n))), s1) = Some (r, s')"
    "sma_at rnd p prices (length prices) s'"
    "Suc n < length prices \<longrightarrow>
       r = rnd (running_sum rnd p prices (length prices) / real (min p (length prices)))"
    using Suc.hyps(1) [OF k s1(2)] n by (metis Suc_leI)
  have d: "drop n prices = prices ! n # drop (Suc n) prices"
    using n by (simp add: Cons_nth_drop_Suc)
  have v: "r = rnd (running_sum rnd p prices (length prices) / real (min p (length prices)))"
  proof (cases "Suc n < length prices")
    case True
    then show ?thesis using r(3) by simp
  next
    case False
    then have e: "Suc n = length prices" using n by simp
    then have "drop (Suc n) prices = []" by simp
    then show ?thesis using r(1) e by simp
  qed
  show ?case
    unfolding d using s1(1) r(1,2) v by simp
qed

lemma sma_stream_last:
  assumes "0 < p" "p \<le> length prices"
  shows "map_option fst (sma_feed rnd prices (0, SimpleMovingAverage_new p))
           = Some (rnd (running_sum rnd p prices (length prices) / real p))"
proof -
  have ne: "0 < length prices" using assms by (cases prices) simp_all
  from sma_feed_from [OF assms(1) sma_at_new [OF assms(1)], of prices rnd 0] ne assms(2)
  show ?thesis
    by (auto simp: min_def)
qed

subsection \<open>RateOfChange and momentum\<close>

lemma roc_at_new: "roc_at p prices 0 (RateOfChange_new p)"
  by (simp add: roc_at_def RateOfChange_new_def cb_wf_new contents_new capacity_new)

lemma roc_at_step:
  assumes "n < length prices" "roc_at p prices n s"
  shows "\<exists>s'. roc_update_fp rnd (prices ! n) s
                 = Some (if n < p then 0
                         else if prices ! (n - p) \<noteq> 0 then roc_cell rnd prices p n else 0, s')
             \<and> roc_at p prices (Suc n) s'"
proof -
  have inv: "roc_period s = p" "cb_wf (roc_buffer s)" "capacity (roc_buffer s) = p + 1"
    "contents (roc_buffer s) = take (p + 1) (rev (take n prices))"
    using assms(2) by (simp_all add: roc_at_def)
  define buf where "buf = push (prices ! n) (roc_buffer s)"
  have c: "contents buf = take (p + 1) (rev (take (Suc n) prices))"
    unfolding buf_def using contents_push [OF inv(2), of "prices ! n"]
    by (simp only: inv(3,4) take_Cons_take rev_take_Suc [OF assms(1)])
  have cnt: "count buf = min (p + 1) (Suc n)"
    using c assms(1) length_contents [of buf] by simp
  have wf: "cb_wf buf" "capacity buf = p + 1"
    unfolding buf_def using cb_wf_push [OF inv(2)] by (simp_all add: capacity_push inv(3))
  show ?thesis
  proof (cases "n < p")
    case True
    then have "size_cb buf \<le> roc_period s"
      by (simp add: size_cb_def cnt inv(1))
    then have "roc_update_fp rnd (prices ! n) s = Some (0, s\<lparr>roc_buffer := buf\<rparr>)"
      by (simp add: roc_update_fp_def buf_def [symmetric] Let_def)
    moreover have "roc_at p prices (Suc n) (s\<lparr>roc_buffer := buf\<rparr>)"
      by (simp add: roc_at_def inv(1) wf c)
    ultimately show ?thesis using True by simp
  next
    case False
    then have pn: "p + 1 \<le> Suc n" by simp
    have nf: "\<not> size_cb buf \<le> roc_period s"
      using False by (simp add: size_cb_def cnt inv(1))
    have "get buf p = Some (contents buf ! p)"
      using False by (simp add: get_contents cnt)
    also have "contents buf ! p = prices ! (n - p)"
      unfolding c using window_oldest [of "p + 1" "Suc n" prices] pn assms(1) by simp
    finally have g: "get buf (roc_period s) = Some (prices ! (n - p))"
      by (simp add: inv(1))
    define cur where "cur = (if prices ! (n - p) \<noteq> 0 then roc_cell rnd prices p n else 0)"
    have "roc_update_fp rnd (prices ! n) s
            = Some (cur, s\<lparr>roc_buffer := buf, roc_current_value := cur\<rparr>)"
      unfolding roc_update_fp_def buf_def [symmetric] Let_def
      using nf g by (simp add: cur_def roc_cell_def)
    moreover have "roc_at p prices (Suc n) (s\<lparr>roc_buffer := buf, roc_current_value := cur\<rparr>)"
      by (simp add: roc_at_def inv(1) wf c)
    ultimately show ?thesis using False by (simp add: cur_def)
  qed
qed

lemma roc_feed_from:
  assumes "roc_at p prices n s" "n \<le> length prices"
  shows "\<exists>r s'. roc_feed rnd (drop n prices) (r0, s) = Some (r, s')
           \<and> roc_at p prices (length prices) s'
           \<and> (n < length prices \<longrightarrow>
                r = (if length prices - 1 < p then 0
                     else if prices ! (length prices - 1 - p) \<noteq> 0
                          then roc_cell rnd prices p (length prices - 1) else 0))"
  using assms
proof (induction "length prices - n" arbitrary: n s r0)
  case 0
  then show ?case by simp
next
  case (Suc k)
  then have n: "n < length prices" by simp
  define out where "out = (if n < p then 0
                         else if prices ! (n - p) \<noteq> 0 then roc_cell rnd prices p n else 0)"
  obtain s1 where s1: "roc_update_fp rnd (prices ! n) s = Some (out, s1)"
    "roc_at p prices (Suc n) s1"
    using roc_at_step [OF n Suc.prems(1)] unfolding out_def by blast
  have k: "k = length prices - Suc n" using Suc.hyps(2) by simp
  obtain r s' where r: "roc_feed rnd (drop (Suc n) prices) (out, s1) = Some (r, s')"
    "roc_at p prices (length prices) s'"
    "Suc n < length prices \<longrightarrow>
       r = (if length prices - 1 < p then 0
            else if prices ! (length prices - 1 - p) \<noteq> 0
                 then roc_cell rnd prices p (length prices - 1) else 0)"
    using Suc.hyps(1) [OF k s1(2)] n by (metis Suc_leI)
  have d: "drop n prices = prices ! n # drop (Suc n) prices"
    using n by (simp add: Cons_nth_drop_Suc)
  have v: "r = (if length prices - 1 < p then 0
            else if prices ! (length prices - 1 - p) \<noteq> 0
                 then roc_cell rnd prices p (length prices - 1) else 0)"
  proof (cases "Suc n < length prices")
    case True
    then show ?thesis using r(3) by simp
  next
    case False
    then have e: "Suc n = length prices" using n by simp
    then have "drop (Suc n) prices = []" by simp
    then have "r = out" using r(1) by simp
    moreover have "length prices - 1 = n" using e by simp
    ultimately show ?thesis by (simp add: out_def)
  qed
  show ?case
    unfolding d using s1(1) r(1,2) v by simp
qed

lemma roc_stream_last:
  assumes "p + 1 \<le> length prices"
  shows "map_option fst (roc_feed rnd prices (0, RateOfChange_new p))
           = Some (if prices ! (length prices - 1 - p) \<noteq> 0
                   then roc_cell rnd prices p (length prices - 1) else 0)"
proof -
  have ne: "0 < length prices" "\<not> length prices - 1 < p"
    using assms by (cases prices; simp)+
  have "\<exists>r s'. roc_feed rnd (drop 0 prices) (0, RateOfChange_new p) = Some (r, s')
           \<and> roc_at p prices (length prices) s'
           \<and> (0 < length prices \<longrightarrow>
                r = (if length prices - 1 < p then 0
                     else if prices ! (length prices - 1 - p) \<noteq> 0
                          then roc_cell rnd prices p (length prices - 1) else 0))"
    by (rule roc_feed_from [OF roc_at_new]) simp
  with ne show ?thesis
    by auto
qed

lemma momentum_loop:
  assumes "m \<le> length prices" "length res = length prices"
  shows "length (fold (momentum_loop_body rnd prices p) [p..<m] res) = length prices
       \<and> (\<forall>j. m \<le> j \<longrightarrow> fold (momentum_loop_body rnd prices p) [p..<m] res ! j = res ! j)
       \<and> (p < m \<longrightarrow> fold (momentum_loop_body rnd prices p) [p..<m] res ! (m - 1)
             = (if prices ! (m - 1 - p) \<noteq> 0 then Some (roc_cell rnd prices p (m - 1))
                else res ! (m - 1)))"
  using assms(1)
proof (induction m)
  case 0
  then show ?case using assms by simp
next
  case (Suc m)
  show ?case
  proof (cases "p \<le> m")
    case False
    then show ?thesis using assms by simp
  next
    case True
    have m: "m < length prices" using Suc.prems by simp
    note IH = Suc.IH [OF less_imp_le [OF m]]
    have up: "[p..<Suc m] = [p..<m] @ [m]" using True by simp
    define r where "r = fold (momentum_loop_body rnd prices p) [p..<m] res"
    have r: "length r = length prices" "\<forall>j. m \<le> j \<longrightarrow> r ! j = res ! j"
      using IH unfolding r_def by simp_all
    have f: "fold (momentum_loop_body rnd prices p) [p..<Suc m] res
               = momentum_loop_body rnd prices p m r"
      unfolding up r_def by simp
    show ?thesis
      unfolding f using r m True
      by (auto simp: momentum_loop_body_def roc_cell_def)
  qed
qed

lemma momentum_batch_last:
  assumes "p + 1 \<le> length prices"
  shows "momentum rnd prices p ! (length prices - 1)
           = (if prices ! (length prices - 1 - p) \<noteq> 0
              then Some (roc_cell rnd prices p (length prices - 1)) else None)"
proof -
  have "p < length prices" using assms by simp
  with momentum_loop [of "length prices" prices "replicate (length prices) None" rnd p] assms
  show ?thesis
    by (simp add: momentum_def)
qed

subsection \<open>RSI and rsi, in exact arithmetic\<close>

lemma fold_sum_prefix: "m \<le> length xs \<Longrightarrow> fold (\<lambda>i s. s + xs ! i) [0..<m] (0::real) = sum_list (take m xs)"
proof (induction m)
  case 0
  show ?case by simp
next
  case (Suc m)
  then show ?case
    by (simp add: take_Suc_conv_app_nth)
qed

lemma wilder_alpha:
  assumes "0 < p"
  shows "1 / real p * g ! (p + d) + (1 - 1 / real p) * wilder p g d = wilder p g (Suc d)"
  using assms by (simp add: field_simps)

lemma rsi_loop:
  assumes "0 < p" "p + 1 \<le> m" "m \<le> n" "length res = n"
    and "res ! p = Some (rsi_formula (\<lambda>x. x) (wilder p g 0) (wilder p l 0))"
  shows "fst (fold (rsi_loop_body (\<lambda>x. x) g l (1 / real p)) [p + 1..<m] ((wilder p g 0, wilder p l 0), res))
           = (wilder p g (m - 1 - p), wilder p l (m - 1 - p))
       \<and> length (snd (fold (rsi_loop_body (\<lambda>x. x) g l (1 / real p)) [p + 1..<m]
                     ((wilder p g 0, wilder p l 0), res))) = n
       \<and> snd (fold (rsi_loop_body (\<lambda>x. x) g l (1 / real p)) [p + 1..<m]
                 ((wilder p g 0, wilder p l 0), res)) ! (m - 1)
           = Some (rsi_formula (\<lambda>x. x) (wilder p g (m - 1 - p)) (wilder p l (m - 1 - p)))"
  using assms(2,3)
proof (induction m)
  case 0
  then show ?case by simp
next
  case (Suc m)
  show ?case
  proof (cases "p + 1 = Suc m")
    case True
    then show ?thesis using assms by simp
  next
    case False
    then have pm: "p + 1 \<le> m" "m < n" using Suc.prems by simp_all
    note IH = Suc.IH [OF pm(1) less_imp_le [OF pm(2)]]
    have up: "[p + 1..<Suc m] = [p + 1..<m] @ [m]" using pm by simp
    define d where "d = m - 1 - p"
    have d: "m - 1 - p = d" "m - p = Suc d" "m - 1 = p + d"
      using pm by (simp_all add: d_def)
    have step: "1 / real p * g ! (p + d) + (1 - 1 / real p) * wilder p g d = wilder p g (Suc d)"
      "1 / real p * l ! (p + d) + (1 - 1 / real p) * wilder p l d = wilder p l (Suc d)"
      using assms(1) by (rule wilder_alpha)+
    define st where "st = fold (rsi_loop_body (\<lambda>x. x) g l (1 / real p)) [p + 1..<m]
                            ((wilder p g 0, wilder p l 0), res)"
    have IH': "fst st = (wilder p g d, wilder p l d)" "length (snd st) = n"
      using IH unfolding st_def [symmetric] d by simp_all
    have body: "rsi_loop_body (\<lambda>x. x) g l (1 / real p) m st
                  = ((wilder p g (Suc d), wilder p l (Suc d)),
                     (snd st)[m := Some (rsi_formula (\<lambda>x. x) (wilder p g (Suc d)) (wilder p l (Suc d)))])"
      unfolding rsi_loop_body_def Let_def IH' d fst_conv snd_conv step ..
    have fold: "fold (rsi_loop_body (\<lambda>x. x) g l (1 / real p)) [p + 1..<Suc m]
                  ((wilder p g 0, wilder p l 0), res) = rsi_loop_body (\<lambda>x. x) g l (1 / real p) m st"
      unfolding up st_def by simp
    have e: "Suc m - 1 - p = Suc d" "Suc m - 1 = m"
      using d by simp_all
    have last: "(snd st)[m := Some (rsi_formula (\<lambda>x. x) (wilder p g (Suc d)) (wilder p l (Suc d)))] ! m
                  = Some (rsi_formula (\<lambda>x. x) (wilder p g (Suc d)) (wilder p l (Suc d)))"
      using IH'(2) pm(2) by simp
    show ?thesis
      unfolding fold body e(1) unfolding e(2) fst_conv snd_conv last length_list_update IH'(2)
      by (intro conjI refl)
  qed
qed

lemma rsi_update_first:
  assumes "rsi_prev_price s = None"
  shows "rsi_update_fp (\<lambda>x. x) v s = (0, s\<lparr>rsi_prev_price := Some v\<rparr>)"
  using assms by (simp add: rsi_update_fp_def)

lemma rsi_update_priming:
  assumes "rsi_prev_price s = Some prev" "Suc (rsi_initialized_count s) < rsi_period s"
  shows "fst (rsi_update_fp (\<lambda>x. x) v s) = 0"
    and "rsi_period (snd (rsi_update_fp (\<lambda>x. x) v s)) = rsi_period s"
    and "rsi_prev_price (snd (rsi_update_fp (\<lambda>x. x) v s)) = Some v"
    and "rsi_initialized_count (snd (rsi_update_fp (\<lambda>x. x) v s)) = Suc (rsi_initialized_count s)"
    and "rsi_avg_gain (snd (rsi_update_fp (\<lambda>x. x) v s)) = rsi_avg_gain s + gain_of (v - prev)"
    and "rsi_avg_loss (snd (rsi_update_fp (\<lambda>x. x) v s)) = rsi_avg_loss s + loss_of (v - prev)"
  using assms by (simp_all add: rsi_update_fp_def Let_def gain_of_def loss_of_def)

lemma rsi_update_primed:
  assumes "rsi_prev_price s = Some prev" "Suc (rsi_initialized_count s) = rsi_period s"
  shows "fst (rsi_update_fp (\<lambda>x. x) v s)
           = rsi_formula (\<lambda>x. x) ((rsi_avg_gain s + gain_of (v - prev)) / real (rsi_period s))
               ((rsi_avg_loss s + loss_of (v - prev)) / real (rsi_period s))"
    and "rsi_period (snd (rsi_update_fp (\<lambda>x. x) v s)) = rsi_period s"
    and "rsi_prev_price (snd (rsi_update_fp (\<lambda>x. x) v s)) = Some v"
    and "rsi_initialized_count (snd (rsi_update_fp (\<lambda>x. x) v s)) = rsi_period s"
    and "rsi_avg_gain (snd (rsi_update_fp (\<lambda>x. x) v s)) = (rsi_avg_gain s + gain_of (v - prev)) / real (rsi_period s)"
    and "rsi_avg_loss (snd (rsi_update_fp (\<lambda>x. x) v s)) = (rsi_avg_loss s + loss_of (v - prev)) / real (rsi_period s)"
  using assms
  by (simp_all add: rsi_update_fp_def Let_def gain_of_def loss_of_def rsi_formula_def
      flip: assms(2))

lemma rsi_update_smoothing:
  assumes "rsi_prev_price s = Some prev" "rsi_period s \<le> rsi_initialized_count s"
  shows "fst (rsi_update_fp (\<lambda>x. x) v s)
           = rsi_formula (\<lambda>x. x) ((rsi_avg_gain s * (real (rsi_period s) - 1) + gain_of (v - prev)) / real (rsi_period s))
               ((rsi_avg_loss s * (real (rsi_period s) - 1) + loss_of (v - prev)) / real (rsi_period s))"
    and "rsi_period (snd (rsi_update_fp (\<lambda>x. x) v s)) = rsi_period s"
    and "rsi_prev_price (snd (rsi_update_fp (\<lambda>x. x) v s)) = Some v"
    and "rsi_initialized_count (snd (rsi_update_fp (\<lambda>x. x) v s)) = rsi_initialized_count s"
    and "rsi_avg_gain (snd (rsi_update_fp (\<lambda>x. x) v s))
           = (rsi_avg_gain s * (real (rsi_period s) - 1) + gain_of (v - prev)) / real (rsi_period s)"
    and "rsi_avg_loss (snd (rsi_update_fp (\<lambda>x. x) v s))
           = (rsi_avg_loss s * (real (rsi_period s) - 1) + loss_of (v - prev)) / real (rsi_period s)"
  using assms
  by (simp_all add: rsi_update_fp_def Let_def gain_of_def loss_of_def rsi_formula_def)

lemma rsi_feed_snoc: "rsi_feed (\<lambda>x. x) (xs @ [x]) rs = rsi_update_fp (\<lambda>x. x) x (snd (rsi_feed (\<lambda>x. x) xs rs))"
  by (induction xs arbitrary: rs) simp_all

lemma changes_of_snoc:
  assumes "xs \<noteq> []"
  shows "changes_of (\<lambda>x. x) (xs @ [x]) = changes_of (\<lambda>x. x) xs @ [x - last xs]"
proof -
  obtain n where n: "length xs = Suc n" using assms by (cases xs) auto
  have "map (\<lambda>i. (xs @ [x]) ! i - (xs @ [x]) ! (i - 1)) [1..<length xs]
          = map (\<lambda>i. xs ! i - xs ! (i - 1)) [1..<length xs]"
    by (rule map_cong) (auto simp: nth_append)
  moreover have "(xs @ [x]) ! length xs - (xs @ [x]) ! (length xs - 1) = x - last xs"
    using assms by (simp add: nth_append last_conv_nth)
  ultimately show ?thesis
    by (simp add: changes_of_def n)
qed

lemma length_changes_of: "length (changes_of (\<lambda>x. x) xs) = length xs - 1"
  by (simp add: changes_of_def)

lemma wilder_append: "p + d \<le> length g \<Longrightarrow> wilder p (g @ h) d = wilder p g d"
  by (induction d) (simp_all add: nth_append)

lemma rsi_feed_state:
  assumes "0 < p" "prices \<noteq> []"
  shows "rsi_period (snd (rsi_feed (\<lambda>x. x) prices (r0, RSI_new p))) = p
       \<and> rsi_prev_price (snd (rsi_feed (\<lambda>x. x) prices (r0, RSI_new p))) = Some (last prices)
       \<and> rsi_initialized_count (snd (rsi_feed (\<lambda>x. x) prices (r0, RSI_new p))) = min p (length prices - 1)
       \<and> rsi_avg_gain (snd (rsi_feed (\<lambda>x. x) prices (r0, RSI_new p)))
           = (if length prices - 1 < p then sum_list (map gain_of (changes_of (\<lambda>x. x) prices))
              else wilder p (map gain_of (changes_of (\<lambda>x. x) prices)) (length prices - 1 - p))
       \<and> rsi_avg_loss (snd (rsi_feed (\<lambda>x. x) prices (r0, RSI_new p)))
           = (if length prices - 1 < p then sum_list (map loss_of (changes_of (\<lambda>x. x) prices))
              else wilder p (map loss_of (changes_of (\<lambda>x. x) prices)) (length prices - 1 - p))
       \<and> (p \<le> length prices - 1 \<longrightarrow>
            fst (rsi_feed (\<lambda>x. x) prices (r0, RSI_new p))
              = rsi_formula (\<lambda>x. x) (wilder p (map gain_of (changes_of (\<lambda>x. x) prices)) (length prices - 1 - p))
                  (wilder p (map loss_of (changes_of (\<lambda>x. x) prices)) (length prices - 1 - p)))"
  using assms(2)
proof (induction prices rule: rev_induct)
  case Nil
  then show ?case by simp
next
  case (snoc x xs)
  show ?case
  proof (cases "xs = []")
    case True
    then show ?thesis
      using assms(1) by (simp add: rsi_update_first RSI_new_def changes_of_def)
  next
    case False
    define s where "s = snd (rsi_feed (\<lambda>x. x) xs (r0, RSI_new p))"
    define d where "d = length xs - 1"
    define G where "G = map gain_of (changes_of (\<lambda>x. x) xs)"
    define L where "L = map loss_of (changes_of (\<lambda>x. x) xs)"
    define c where "c = x - last xs"
    have IH: "rsi_period s = p" "rsi_prev_price s = Some (last xs)"
      "rsi_initialized_count s = min p d"
      "rsi_avg_gain s = (if d < p then sum_list G else wilder p G (d - p))"
      "rsi_avg_loss s = (if d < p then sum_list L else wilder p L (d - p))"
      using snoc.IH [OF False] by (simp_all add: s_def d_def G_def L_def)
    have len: "length G = d" "length L = d"
      by (simp_all add: G_def L_def d_def length_changes_of)
    have G': "map gain_of (changes_of (\<lambda>x. x) (xs @ [x])) = G @ [gain_of c]"
      and L': "map loss_of (changes_of (\<lambda>x. x) (xs @ [x])) = L @ [loss_of c]"
      using False by (simp_all add: changes_of_snoc G_def L_def c_def)
    have d': "length (xs @ [x]) - 1 = Suc d"
      using False by (cases xs) (simp_all add: d_def)
    have feed: "rsi_feed (\<lambda>x. x) (xs @ [x]) (r0, RSI_new p) = rsi_update_fp (\<lambda>x. x) x s"
      by (simp add: rsi_feed_snoc s_def)
    consider (priming) "Suc d < p" | (primed) "Suc d = p" | (smoothing) "p \<le> d"
      by linarith
    then show ?thesis
    proof cases
      case priming
      then have "Suc (rsi_initialized_count s) < rsi_period s"
        using IH by simp
      note u = rsi_update_priming [OF IH(2) this, of x]
      show ?thesis
        unfolding feed G' L' d' using u IH priming by (simp add: c_def)
    next
      case primed
      then have "Suc (rsi_initialized_count s) = rsi_period s"
        using IH by simp
      note u = rsi_update_primed [OF IH(2) this, of x]
      have w: "wilder p (G @ [gain_of c]) 0 = (sum_list G + gain_of c) / real p"
        "wilder p (L @ [loss_of c]) 0 = (sum_list L + loss_of c) / real p"
        using primed len by simp_all
      show ?thesis
        unfolding feed G' L' d' using u IH primed w by (simp add: c_def)
    next
      case smoothing
      then have "rsi_period s \<le> rsi_initialized_count s"
        using IH by simp
      note u = rsi_update_smoothing [OF IH(2) this, of x]
      have sd: "Suc d - p = Suc (d - p)" using smoothing by simp
      have w: "wilder p (G @ [gain_of c]) (Suc (d - p))
                 = (wilder p G (d - p) * (real p - 1) + gain_of c) / real p"
        "wilder p (L @ [loss_of c]) (Suc (d - p))
                 = (wilder p L (d - p) * (real p - 1) + loss_of c) / real p"
        using smoothing len by (simp_all add: wilder_append nth_append)
      show ?thesis
        unfolding feed G' L' d' sd using u IH smoothing w
        by (simp add: c_def del: wilder.simps)
    qed
  qed
qed

lemma gains_eq: "map (\<lambda>change. if change > 0 then change else 0.0) xs = map gain_of xs"
  by (simp add: gain_of_def)

lemma losses_eq: "map (\<lambda>change. if change < 0 then - change else 0.0) xs = map loss_of xs"
  by (simp add: loss_of_def)

lemma rsi_batch_last:
  assumes "0 < p" "p + 1 \<le> length prices"
  shows "rsi (\<lambda>x. x) prices p ! (length prices - 1)
           = Some (rsi_formula (\<lambda>x. x) (wilder p (map gain_of (changes_of (\<lambda>x. x) prices)) (length prices - 1 - p))
                     (wilder p (map loss_of (changes_of (\<lambda>x. x) prices)) (length prices - 1 - p)))"
proof -
  let ?G = "map gain_of (changes_of (\<lambda>x. x) prices)"
  let ?L = "map loss_of (changes_of (\<lambda>x. x) prices)"
  let ?res = "(replicate (length prices) (None :: real option))
                [p := Some (rsi_formula (\<lambda>x. x) (wilder p ?G 0) (wilder p ?L 0))]"
  have r: "length ?res = length prices"
    "?res ! p = Some (rsi_formula (\<lambda>x. x) (wilder p ?G 0) (wilder p ?L 0))"
    using assms by simp_all
  have "rsi (\<lambda>x. x) prices p = snd (fold (rsi_loop_body (\<lambda>x. x) ?G ?L (1 / real p)) [p + 1..<length prices]
                              ((wilder p ?G 0, wilder p ?L 0), ?res))"
    using assms(2)
    by (simp add: rsi_def Let_def gains_eq losses_eq fold_sum_prefix length_changes_of)
  with rsi_loop [OF assms(1) assms(2) le_refl r] show ?thesis
    by simp
qed

subsection \<open>RollingStats and rolling_std, in exact arithmetic\<close>

lemma take_append_take: "take p (ys @ take p zs) = take p (ys @ zs)"
  by (simp add: min_def)

lemma rs_feed_wf:
  assumes "rs_wf s"
  shows "\<exists>r s'. rs_feed (\<lambda>x. x) xs (r0, s) = Some (r, s') \<and> rs_wf s' \<and> rs_period s' = rs_period s
           \<and> contents (rs_buffer s') = take (rs_period s) (rev xs @ contents (rs_buffer s))
           \<and> (xs \<noteq> [] \<longrightarrow> rs_std_dev s' = window_std (contents (rs_buffer s')))"
  using assms
proof (induction xs arbitrary: s r0)
  case Nil
  then have "length (contents (rs_buffer s)) \<le> rs_period s"
    by (simp add: rs_wf_def cb_wf_def length_contents)
  then show ?case using Nil by simp
next
  case (Cons x xs)
  obtain s1 where s1: "rs_update x s = Some (rs_mean s1, s1)" "rs_wf s1"
    "rs_period s1 = rs_period s"
    "contents (rs_buffer s1) = take (rs_period s) (x # contents (rs_buffer s))"
    "rs_std_dev s1 = window_std (contents (rs_buffer s1))"
    using rs_update_wf [OF Cons.prems, of x] by blast
  obtain r s' where r: "rs_feed (\<lambda>x. x) xs (rs_mean s1, s1) = Some (r, s')" "rs_wf s'"
    "rs_period s' = rs_period s1"
    "contents (rs_buffer s') = take (rs_period s1) (rev xs @ contents (rs_buffer s1))"
    "xs \<noteq> [] \<longrightarrow> rs_std_dev s' = window_std (contents (rs_buffer s'))"
    using Cons.IH [OF s1(2), of "rs_mean s1"] by blast
  have c: "contents (rs_buffer s') = take (rs_period s) (rev (x # xs) @ contents (rs_buffer s))"
    unfolding r(4) s1(3,4) take_append_take by simp
  have v: "rs_std_dev s' = window_std (contents (rs_buffer s'))"
  proof (cases "xs = []")
    case True
    then have "s' = s1" using r(1) by auto
    then show ?thesis using s1(5) by simp
  next
    case False
    then show ?thesis using r(5) by simp
  qed
  show ?case
    using s1(1,3) r(1,2,3) c v by (simp add: rs_update_fp_exact)
qed

lemma rs_stream_last:
  assumes "0 < p" "p \<le> length vals"
  shows "\<exists>r s'. rs_feed (\<lambda>x. x) vals (0, RollingStats_new p) = Some (r, s')
           \<and> rs_std_dev s' = window_std (take p (rev vals))"
proof -
  have ne: "vals \<noteq> []" using assms by (cases vals) simp_all
  from rs_feed_wf [OF rs_wf_new [OF assms(1)], of vals 0] ne
  show ?thesis
    by (auto simp: RollingStats_new_def contents_new)
qed

lemma window_sums_exact_aux:
  assumes "m \<le> Suc i" "i < length vals"
  shows "fold (\<lambda>j acc. (let val = vals ! (i - j)
                         in (fst acc + val, snd acc + val * val))) [0..<m] (0, 0)
           = (sum_list (take m (rev (take (Suc i) vals))),
              sum_list (map (\<lambda>x. x * x) (take m (rev (take (Suc i) vals)))))"
  using assms(1)
proof (induction m)
  case 0
  show ?case by simp
next
  case (Suc m)
  have m: "m < length (rev (take (Suc i) vals))" using Suc.prems assms(2) by simp
  have "rev (take (Suc i) vals) ! m = take (Suc i) vals ! (length (take (Suc i) vals) - Suc m)"
    using m by (intro rev_nth) simp
  also have "\<dots> = vals ! (i - m)"
    using Suc.prems assms(2) by simp
  finally have nth: "rev (take (Suc i) vals) ! m = vals ! (i - m)" .
  have tk: "take (Suc m) (rev (take (Suc i) vals)) = take m (rev (take (Suc i) vals)) @ [vals ! (i - m)]"
    using m nth by (simp add: take_Suc_conv_app_nth)
  show ?case
    using Suc.IH Suc.prems by (simp add: tk Let_def)
qed

lemma window_sums_exact:
  assumes "p \<le> Suc i" "i < length vals"
  shows "window_sums (\<lambda>x. x) vals p i
           = (sum_list (take p (rev (take (Suc i) vals))),
              sum_list (map (\<lambda>x. x * x) (take p (rev (take (Suc i) vals)))))"
  unfolding window_sums_def using window_sums_exact_aux [OF assms] by simp

lemma sq_sum_le: "(sum_list xs)\<^sup>2 \<le> real (length xs) * sum_list (map (\<lambda>x. x * x) xs)"
proof (induction xs)
  case Nil
  show ?case by simp
next
  case (Cons x xs)
  define S where "S = sum_list xs"
  define Q where "Q = sum_list (map (\<lambda>x. x * x) xs)"
  define n where "n = real (length xs)"
  have IH: "S\<^sup>2 \<le> n * Q" using Cons.IH by (simp add: S_def Q_def n_def)
  have n0: "0 \<le> n" by (simp add: n_def)
  have Q0: "0 \<le> Q" unfolding Q_def by (rule sum_list_nonneg) auto
  have cross: "2 * x * S \<le> n * (x * x) + Q"
  proof (cases "n = 0")
    case True
    then have "xs = []" by (simp add: n_def)
    then show ?thesis by (simp add: S_def Q_def n_def)
  next
    case False
    then have np: "0 < n" using n0 by simp
    have "0 \<le> (n * x - S)\<^sup>2" by simp
    then have "2 * n * x * S \<le> n * n * (x * x) + S\<^sup>2"
      by (simp add: power2_eq_square algebra_simps)
    also have "\<dots> \<le> n * n * (x * x) + n * Q" using IH by simp
    finally have "n * (2 * x * S) \<le> n * (n * (x * x) + Q)"
      by (simp add: algebra_simps)
    then show ?thesis using np by simp
  qed
  have "(x + S)\<^sup>2 = x * x + 2 * x * S + S\<^sup>2"
    by (simp add: power2_eq_square algebra_simps)
  also have "\<dots> \<le> x * x + (n * (x * x) + Q) + n * Q"
    using cross IH by simp
  also have "\<dots> = (n + 1) * (x * x + Q)"
    by (simp add: algebra_simps)
  finally show ?case
    by (simp add: S_def Q_def n_def add.commute)
qed

lemma variance_nonneg:
  assumes "xs \<noteq> []"
  shows "0 \<le> sum_list (map (\<lambda>x. x * x) xs) / real (length xs)
               - sum_list xs / real (length xs) * (sum_list xs / real (length xs))"
proof -
  define n where "n = real (length xs)"
  have np: "0 < n" using assms by (simp add: n_def)
  have "sum_list xs / n * (sum_list xs / n) = (sum_list xs)\<^sup>2 / (n * n)"
    by (simp add: power2_eq_square)
  also have "\<dots> \<le> (n * sum_list (map (\<lambda>x. x * x) xs)) / (n * n)"
    using sq_sum_le [of xs] np by (intro divide_right_mono) (simp_all add: n_def)
  also have "\<dots> = sum_list (map (\<lambda>x. x * x) xs) / n"
    using np by simp
  finally show ?thesis
    by (simp add: n_def)
qed

lemma rolling_std_loop:
  assumes "m \<le> length vals" "length res = length vals"
  shows "length (fold (rolling_std_loop_body rnd vals p) [p - 1..<m] res) = length vals
       \<and> (p - 1 < m \<longrightarrow> fold (rolling_std_loop_body rnd vals p) [p - 1..<m] res ! (m - 1)
             = rolling_std_loop_body rnd vals p (m - 1) res ! (m - 1))"
  using assms(1)
proof (induction m)
  case 0
  then show ?case using assms by simp
next
  case (Suc m)
  show ?case
  proof (cases "p - 1 \<le> m")
    case False
    then show ?thesis using assms by simp
  next
    case True
    have m: "m < length vals" using Suc.prems by simp
    note IH = Suc.IH [OF less_imp_le [OF m]]
    have up: "[p - 1..<Suc m] = [p - 1..<m] @ [m]" using True by simp
    define r where "r = fold (rolling_std_loop_body rnd vals p) [p - 1..<m] res"
    have r: "length r = length vals" using IH unfolding r_def by simp
    have f: "fold (rolling_std_loop_body rnd vals p) [p - 1..<Suc m] res
               = rolling_std_loop_body rnd vals p m r"
      unfolding up r_def by simp
    show ?thesis
      unfolding f using r m assms(2)
      by (simp add: rolling_std_loop_body_def Let_def)
  qed
qed

lemma rolling_std_batch_last:
  assumes "0 < p" "p \<le> length vals"
  shows "rolling_std (\<lambda>x. x) vals p ! (length vals - 1) = Some (window_std (take p (rev vals)))"
proof -
  define i where "i = length vals - 1"
  have i: "Suc i = length vals" "i < length vals" "p \<le> Suc i" "p - 1 < length vals"
    using assms by (simp_all add: i_def)
  define w where "w = take p (rev vals)"
  have wl: "length w = p" "w \<noteq> []" using assms by (auto simp: w_def)
  have ws: "window_sums (\<lambda>x. x) vals p i = (sum_list w, sum_list (map (\<lambda>x. x * x) w))"
    using window_sums_exact [OF i(3,2)] by (simp add: i(1) w_def)
  have nn: "0 \<le> sum_list (map (\<lambda>x. x * x) w) / real p - sum_list w / real p * (sum_list w / real p)"
    using variance_nonneg [OF wl(2)] by (simp add: wl(1))
  have cell: "rolling_std_loop_body (\<lambda>x. x) vals p i (replicate (length vals) None) ! i
                = Some (window_std w)"
    using nn i(2) by (simp add: rolling_std_loop_body_def ws Let_def window_std_def wl(1))
  from rolling_std_loop [of "length vals" vals "replicate (length vals) None" "\<lambda>x. x" p] i(4)
  have "fold (rolling_std_loop_body (\<lambda>x. x) vals p) [p - 1..<length vals]
          (replicate (length vals) None) ! i = Some (window_std w)"
    using cell by (simp add: i_def)
  then show ?thesis
    using assms by (simp add: rolling_std_def i_def w_def)
qed

subsection \<open>The equivalence\<close>

text \<open>
  Claim C3. For every sequence, every period above 0 and every rounding of the arithmetic
  operations (the one of the doubles in particular): the output of \<^verbatim>\<open>SimpleMovingAverage\<close>
  after the prices is the last cell of \<^verbatim>\<open>sma\<close> over the same prices as soon as that cell is
  defined (at least period prices), and the output of \<^verbatim>\<open>RateOfChange\<close> is the last cell of
  \<^verbatim>\<open>momentum\<close> as soon as that cell is defined (at least period + 1 prices and a price
  other than 0 period steps back; the cell is empty otherwise). The two computations do the
  same operations in the same order, and the values are identical, not only within 1e-9.
  In exact arithmetic, the output of the streaming \<^verbatim>\<open>RSI\<close> is the last cell of \<^verbatim>\<open>rsi\<close> (at
  least period + 1 prices), and the standard deviation of \<^verbatim>\<open>RollingStats\<close> the last cell of
  \<^verbatim>\<open>rolling_std\<close> (at least period values).
\<close>

theorem streaming_matches_batch:
  assumes "0 < period"
  shows "(period \<le> length prices \<longrightarrow>
            (\<exists>v. sma rnd prices period ! (length prices - 1) = Some v \<and>
                 map_option fst (sma_feed rnd prices (0, SimpleMovingAverage_new period)) = Some v)) \<and>
         (period + 1 \<le> length prices \<and> prices ! (length prices - 1 - period) \<noteq> 0 \<longrightarrow>
            (\<exists>v. momentum rnd prices period ! (length prices - 1) = Some v \<and>
                 map_option fst (roc_feed rnd prices (0, RateOfChange_new period)) = Some v)) \<and>
         (period + 1 \<le> length prices \<and> prices ! (length prices - 1 - period) = 0 \<longrightarrow>
            momentum rnd prices period ! (length prices - 1) = None) \<and>
         (period + 1 \<le> length prices \<longrightarrow>
            rsi (\<lambda>x. x) prices period ! (length prices - 1)
              = Some (fst (rsi_feed (\<lambda>x. x) prices (0, RSI_new period)))) \<and>
         (period \<le> length prices \<longrightarrow>
            (\<exists>v. rolling_std (\<lambda>x. x) prices period ! (length prices - 1) = Some v \<and>
                 map_option (\<lambda>rs. rs_std_dev (snd rs))
                   (rs_feed (\<lambda>x. x) prices (0, RollingStats_new period)) = Some v))"
proof (intro conjI impI)
  assume "period \<le> length prices"
  with assms show "\<exists>v. sma rnd prices period ! (length prices - 1) = Some v \<and>
                 map_option fst (sma_feed rnd prices (0, SimpleMovingAverage_new period)) = Some v"
    using sma_batch_last [of period prices rnd] sma_stream_last [of period prices rnd] by blast
next
  assume a: "period + 1 \<le> length prices \<and> prices ! (length prices - 1 - period) \<noteq> 0"
  then show "\<exists>v. momentum rnd prices period ! (length prices - 1) = Some v \<and>
                 map_option fst (roc_feed rnd prices (0, RateOfChange_new period)) = Some v"
    using momentum_batch_last [of period prices rnd] roc_stream_last [of period prices rnd]
    by simp
next
  assume "period + 1 \<le> length prices \<and> prices ! (length prices - 1 - period) = 0"
  then show "momentum rnd prices period ! (length prices - 1) = None"
    using momentum_batch_last [of period prices rnd] by simp
next
  assume a: "period + 1 \<le> length prices"
  then have ne: "prices \<noteq> []" and d: "period \<le> length prices - 1" by auto
  from rsi_feed_state [OF assms ne, of 0] d
  have "fst (rsi_feed (\<lambda>x. x) prices (0, RSI_new period))
          = rsi_formula (\<lambda>x. x)
              (wilder period (map gain_of (changes_of (\<lambda>x. x) prices)) (length prices - 1 - period))
              (wilder period (map loss_of (changes_of (\<lambda>x. x) prices)) (length prices - 1 - period))"
    by blast
  then show "rsi (\<lambda>x. x) prices period ! (length prices - 1)
               = Some (fst (rsi_feed (\<lambda>x. x) prices (0, RSI_new period)))"
    using rsi_batch_last [OF assms a] by simp
next
  assume a: "period \<le> length prices"
  obtain r s' where "rs_feed (\<lambda>x. x) prices (0, RollingStats_new period) = Some (r, s')"
    "rs_std_dev s' = window_std (take period (rev prices))"
    using rs_stream_last [OF assms a] by blast
  then show "\<exists>v. rolling_std (\<lambda>x. x) prices period ! (length prices - 1) = Some v \<and>
                 map_option (\<lambda>rs. rs_std_dev (snd rs))
                   (rs_feed (\<lambda>x. x) prices (0, RollingStats_new period)) = Some v"
    using rolling_std_batch_last [OF assms a] by simp
qed

lemmas cb_eval = CircularBuffer_new_def push_def get_def is_full_def size_cb_def

lemmas round64_eval = round64_zero round64_numeral round64_neg_numeral round64_one round64_half
  round64_tie round64_big round64_dyadic sqrt_dyadic

lemma sma_feed_example:
  "map_option fst (sma_feed round64 [1, 2, 4, 3, 5] (0, SimpleMovingAverage_new 2)) = Some 4"
  by (simp add: sma_update_fp_def SimpleMovingAverage_new_def cb_eval Let_def numeral_2_eq_2
      round64_eval)

lemma roc_feed_example:
  "map_option fst (roc_feed round64 [1, 2, 4, 3, 5] (0, RateOfChange_new 2)) = Some (1 / 4)"
  by (simp add: roc_update_fp_def RateOfChange_new_def cb_eval Let_def numeral_2_eq_2
      round64_eval)

lemma rsi_feed_example: "fst (rsi_feed (\<lambda>x. x) [1, 2, 4, 3, 5] (0, RSI_new 2)) = 1100 / 13"
  by (simp add: rsi_update_fp_def rsi_formula_def RSI_new_def Let_def)

lemma rs_feed_example:
  "map_option (\<lambda>rs. rs_std_dev (snd rs))
     (rs_feed (\<lambda>x. x) [1, 2, 4, 3, 5] (0, RollingStats_new 2)) = Some 1"
  by (simp add: rs_update_fp_def RollingStats_new_def cb_eval Let_def numeral_2_eq_2)

theorem streaming_matches_batch_witness:
  "0 < (2::nat) \<and> 2 \<le> length [1, 2, 4, 3, 5 :: real] \<and> 2 + 1 \<le> length [1, 2, 4, 3, 5 :: real] \<and>
   [1, 2, 4, 3, 5 :: real] ! (length [1, 2, 4, 3, 5 :: real] - 1 - 2) \<noteq> 0 \<and>
   map_option fst (sma_feed round64 [1, 2, 4, 3, 5] (0, SimpleMovingAverage_new 2)) = Some 4 \<and>
   sma round64 [1, 2, 4, 3, 5] 2 ! (length [1, 2, 4, 3, 5 :: real] - 1) = Some 4 \<and>
   map_option fst (roc_feed round64 [1, 2, 4, 3, 5] (0, RateOfChange_new 2)) = Some (1 / 4) \<and>
   momentum round64 [1, 2, 4, 3, 5] 2 ! (length [1, 2, 4, 3, 5 :: real] - 1) = Some (1 / 4) \<and>
   fst (rsi_feed (\<lambda>x. x) [1, 2, 4, 3, 5] (0, RSI_new 2)) = 1100 / 13 \<and>
   rsi (\<lambda>x. x) [1, 2, 4, 3, 5] 2 ! (length [1, 2, 4, 3, 5 :: real] - 1) = Some (1100 / 13) \<and>
   map_option (\<lambda>rs. rs_std_dev (snd rs))
     (rs_feed (\<lambda>x. x) [1, 2, 4, 3, 5] (0, RollingStats_new 2)) = Some 1 \<and>
   rolling_std (\<lambda>x. x) [1, 2, 4, 3, 5] 2 ! (length [1, 2, 4, 3, 5 :: real] - 1) = Some 1"
proof -
  have p: "0 < (2::nat)" by simp
  have l: "2 \<le> length [1, 2, 4, 3, 5 :: real]" "2 + 1 \<le> length [1, 2, 4, 3, 5 :: real]"
    by simp_all
  have z: "[1, 2, 4, 3, 5 :: real] ! (length [1, 2, 4, 3, 5 :: real] - 1 - 2) \<noteq> 0"
    by (simp add: numeral_2_eq_2)
  note t = streaming_matches_batch [OF p, of "[1, 2, 4, 3, 5]" round64]
  from t l(1) obtain v where v: "sma round64 [1, 2, 4, 3, 5] 2 ! (length [1, 2, 4, 3, 5 :: real] - 1) = Some v"
    "map_option fst (sma_feed round64 [1, 2, 4, 3, 5] (0, SimpleMovingAverage_new 2)) = Some v"
    by blast
  from v(2) have "v = 4"
    unfolding sma_feed_example by (simp only: option.inject)
  with v(1) have a: "sma round64 [1, 2, 4, 3, 5] 2 ! (length [1, 2, 4, 3, 5 :: real] - 1) = Some 4"
    by (simp only:)
  from t l(2) z obtain w where w:
    "momentum round64 [1, 2, 4, 3, 5] 2 ! (length [1, 2, 4, 3, 5 :: real] - 1) = Some w"
    "map_option fst (roc_feed round64 [1, 2, 4, 3, 5] (0, RateOfChange_new 2)) = Some w"
    by blast
  from w(2) have "w = 1 / 4"
    unfolding roc_feed_example by (simp only: option.inject)
  with w(1) have b: "momentum round64 [1, 2, 4, 3, 5] 2 ! (length [1, 2, 4, 3, 5 :: real] - 1)
                       = Some (1 / 4)"
    by (simp only:)
  from t l(2) have "rsi (\<lambda>x. x) [1, 2, 4, 3, 5] 2 ! (length [1, 2, 4, 3, 5 :: real] - 1)
                      = Some (fst (rsi_feed (\<lambda>x. x) [1, 2, 4, 3, 5] (0, RSI_new 2)))"
    by blast
  then have c: "rsi (\<lambda>x. x) [1, 2, 4, 3, 5] 2 ! (length [1, 2, 4, 3, 5 :: real] - 1)
                  = Some (1100 / 13)"
    by (simp only: rsi_feed_example)
  from t l(1) obtain u where u:
    "rolling_std (\<lambda>x. x) [1, 2, 4, 3, 5] 2 ! (length [1, 2, 4, 3, 5 :: real] - 1) = Some u"
    "map_option (\<lambda>rs. rs_std_dev (snd rs))
       (rs_feed (\<lambda>x. x) [1, 2, 4, 3, 5] (0, RollingStats_new 2)) = Some u"
    by blast
  from u(2) have "u = 1"
    unfolding rs_feed_example by (simp only: option.inject)
  with u(1) have d: "rolling_std (\<lambda>x. x) [1, 2, 4, 3, 5] 2 ! (length [1, 2, 4, 3, 5 :: real] - 1)
                       = Some 1"
    by (simp only:)
  show ?thesis
    by (intro conjI p l z a b c d sma_feed_example roc_feed_example rsi_feed_example
        rs_feed_example)
qed

lemma round64_sub:
  "\<bar>r\<bar> < 2 ^ 52 \<Longrightarrow> round64 (r * min_subnormal) = of_int (round_half_even r) * min_subnormal"
  "round64 min_subnormal = min_subnormal"
  "\<bar>r\<bar> < 2 ^ 52 \<Longrightarrow> round64 (- (r * min_subnormal)) = of_int (round_half_even (- r)) * min_subnormal"
  "\<bar>c\<bar> > 1 / 2 ^ 52 \<Longrightarrow> round64 (min_subnormal / c) = of_int (round_half_even (1 / c)) * min_subnormal"
proof -
  show "\<bar>r\<bar> < 2 ^ 52 \<Longrightarrow> round64 (r * min_subnormal) = of_int (round_half_even r) * min_subnormal"
    by (rule round64_subnormal)
  show "round64 min_subnormal = min_subnormal"
    using round64_subnormal [of 1] by (simp add: round_half_even_def)
  show "\<bar>r\<bar> < 2 ^ 52 \<Longrightarrow> round64 (- (r * min_subnormal)) = of_int (round_half_even (- r)) * min_subnormal"
    using round64_subnormal [of "- r"] by simp
  assume c: "\<bar>c\<bar> > 1 / 2 ^ 52"
  then have "c \<noteq> 0" by auto
  have "\<bar>1 / c\<bar> < 2 ^ 52"
    using c \<open>c \<noteq> 0\<close> by (simp add: field_simps abs_mult)
  from round64_subnormal [OF this]
  show "round64 (min_subnormal / c) = of_int (round_half_even (1 / c)) * min_subnormal"
    by simp
qed

lemmas rhe_eval = round_half_even_def Let_def

lemma rsi_stream_sub: "fst (rsi_feed round64 subnormal_prices (0, RSI_new 2)) = 50"
  by (simp add: subnormal_prices_def rsi_update_fp_def RSI_new_def Let_def rsi_formula_def
      round64_sub round64_zero round64_numeral round64_one round64_half sub_sign rhe_eval)

lemma rsi_batch_sub: "rsi round64 subnormal_prices 2 ! 3 = Some 0"
  by (simp add: subnormal_prices_def rsi_def rsi_loop_body_def changes_of_def Let_def rsi_formula_def
      numeral_2_eq_2 numeral_3_eq_3 upt_rec
      round64_sub round64_zero round64_numeral round64_one round64_half sub_sign rhe_eval)

lemma atr_stream_ex: "fst (atr_feed round64 [(10, 0, 5), (6, 4, 5), (6, 4, 5)] (0, ATR_new 2)) = 4"
  by (simp add: atr_update_fp_def ATR_new_def Let_def
      round64_zero round64_numeral round64_neg_numeral round64_one round64_half)

lemma atr_batch_ex: "atr round64 [10, 6, 6] [0, 4, 4] [5, 5, 5] 2 ! 2 = Some 2"
  by (simp add: atr_def atr_loop_body_def Let_def numeral_2_eq_2 numeral_3_eq_3
      round64_zero round64_numeral round64_neg_numeral round64_one round64_half)

lemma rs_std_stream_ex:
  "map_option (\<lambda>rs. rs_std_dev (snd rs))
     (rs_feed round64 [9007199254740992, 1, 1] (0, RollingStats_new 2)) = Some (1 / 2)"
  by (simp add: rs_update_fp_def RollingStats_new_def cb_eval Let_def numeral_2_eq_2
      round64_eval)

lemma rolling_std_ex: "rolling_std round64 [9007199254740992, 1, 1] 2 ! 2 = Some 0"
  by (simp add: rolling_std_def rolling_std_loop_body_def window_sums_def Let_def
      numeral_2_eq_2 numeral_3_eq_3 upt_rec round64_eval)

lemma rs_zscore_stream_ex:
  "map_option (\<lambda>rs. rs_zscore (snd rs))
     (rs_feed round64 [0, 1 / 2 ^ 31] (0, RollingStats_new 2)) = Some 0"
  by (simp add: rs_update_fp_def RollingStats_new_def cb_eval Let_def numeral_2_eq_2
      round64_eval)

lemma zscore_ex: "zscore round64 [0, 1 / 2 ^ 31] 2 ! 1 = Some 1"
  by (simp add: zscore_def zscore_loop_body_def window_sums_def Let_def
      numeral_2_eq_2 numeral_3_eq_3 upt_rec round64_eval)

text \<open>
  The equivalence holds of no other pair, in the arithmetic of the doubles. With period 2:
  the streaming ATR primes with the true ranges of the first two bars, the first being
  high - low = 10, and \<^verbatim>\<open>atr\<close> with those of the second and third bars: 4 against 2 after
  three bars. The streaming RSI smooths with \<^verbatim>\<open>(avg * (period - 1) + x) / period\<close> and
  \<^verbatim>\<open>rsi\<close> with \<^verbatim>\<open>alpha * x + (1 - alpha) * avg\<close>, which round differently: 50 against 0 on
  four prices in the subnormal range. \<^verbatim>\<open>RollingStats\<close> keeps running sums, from which the
  value that leaves the window is subtracted, and \<^verbatim>\<open>rolling_std\<close> sums each window anew:
  1/2 against 0 on the values 2^53, 1, 1. \<^verbatim>\<open>RollingStats\<close> gives the z-score 0 when the
  standard deviation is at most 1e-9 and \<^verbatim>\<open>zscore\<close> divides as soon as it is above 0: 0
  against 1 on the values 0, 2^-31, whose standard deviation is 2^-32.
\<close>

theorem streaming_batch_counterexample:
  "fst (atr_feed round64 [(10, 0, 5), (6, 4, 5), (6, 4, 5)] (0, ATR_new 2)) = 4 \<and>
   atr round64 [10, 6, 6] [0, 4, 4] [5, 5, 5] 2 ! 2 = Some 2 \<and>
   fst (rsi_feed round64 subnormal_prices (0, RSI_new 2)) = 50 \<and>
   rsi round64 subnormal_prices 2 ! 3 = Some 0 \<and>
   map_option (\<lambda>rs. rs_std_dev (snd rs))
     (rs_feed round64 [9007199254740992, 1, 1] (0, RollingStats_new 2)) = Some (1 / 2) \<and>
   rolling_std round64 [9007199254740992, 1, 1] 2 ! 2 = Some 0 \<and>
   map_option (\<lambda>rs. rs_zscore (snd rs))
     (rs_feed round64 [0, 1 / 2 ^ 31] (0, RollingStats_new 2)) = Some 0 \<and>
   zscore round64 [0, 1 / 2 ^ 31] 2 ! 1 = Some 1 \<and>
   1 / 10 ^ 9 < \<bar>(4::real) - 2\<bar> \<and> 1 / 10 ^ 9 < \<bar>(50::real) - 0\<bar> \<and>
   1 / 10 ^ 9 < \<bar>(1 / 2 :: real) - 0\<bar> \<and> 1 / 10 ^ 9 < \<bar>(0::real) - 1\<bar>"
  by (intro conjI atr_stream_ex atr_batch_ex rsi_stream_sub rsi_batch_sub rs_std_stream_ex
      rolling_std_ex rs_zscore_stream_ex zscore_ex) simp_all

end
